theory Spec2Isabelle
  imports Complex_Main "HOL-Library.Word" "HOL-Library.AList"
begin

section \<open>Colour to grayscale conversion and its profiling harness (convert_bw.py)\<close>

text \<open>
  The development follows \<^verbatim>\<open>src/convert_bw.py\<close>: the three converters
  \<^verbatim>\<open>convert_numpy\<close>, \<^verbatim>\<open>convert_numba\<close> and \<^verbatim>\<open>convert_numba_loop\<close>, the harness
  \<^verbatim>\<open>profile_function\<close> and the driver \<^verbatim>\<open>main\<close>.  Arrays live in an explicit store, so
  that writing into the preallocated output of the loop converter is a store update;
  every Python exception is a value of \<open>error\<close>, and a computation returns its outcome
  together with the state it leaves behind, also when it raises.
\<close>

subsection \<open>Binary64 arithmetic\<close>

text \<open>
  A finite binary64 value is a dyadic rational.  Every arithmetic operation of the source
  is the exact operation followed by rounding to the nearest representable value, ties to
  the even significand (the IEEE 754 default, used both by NumPy and by the code Numba
  compiles without \<^verbatim>\<open>fastmath\<close>).  The significand has 53 bits; below \<open>2 powi (-1022)\<close>
  the spacing stays \<open>2 powi (-1074)\<close>.  Infinities, NaN and the sign of zero are not
  modelled: no operand of the converters exceeds 255, and the clock values are finite.
\<close>

type_synonym float64 = rat

type_synonym u8 = "8 word"

function flog2 :: "rat \<Rightarrow> int" where
  "flog2 q = (if q \<le> 0 then 0
              else if q < 1 then flog2 (2 * q) - 1
              else if 2 \<le> q then flog2 (q / 2) + 1
              else 0)"
  by pat_completeness auto
termination
proof (relation "measure (\<lambda>q. if q < 1 then nat \<lceil>1 / q\<rceil> else nat \<lfloor>q\<rfloor>)")
  show "wf (measure (\<lambda>q::rat. if q < 1 then nat \<lceil>1 / q\<rceil> else nat \<lfloor>q\<rfloor>))"
    by simp
next
  fix q :: rat
  assume a: "\<not> q \<le> 0" "q < 1"
  show "(2 * q, q) \<in> measure (\<lambda>q. if q < 1 then nat \<lceil>1 / q\<rceil> else nat \<lfloor>q\<rfloor>)"
  proof (cases "2 * q < 1")
    case True
    have big: "2 < 1 / q" using a True by (simp add: field_simps)
    have "of_int \<lceil>(1 / q) / 2\<rceil> < (1 / q) / 2 + 1" by linarith
    also have "\<dots> \<le> 1 / q" using big by simp
    also have "\<dots> \<le> of_int \<lceil>1 / q\<rceil>" by linarith
    finally have "\<lceil>(1 / q) / 2\<rceil> < \<lceil>1 / q\<rceil>" by simp
    then have "\<lceil>1 / (2 * q)\<rceil> < \<lceil>1 / q\<rceil>" by (simp add: mult.commute)
    moreover have "0 < \<lceil>1 / q\<rceil>" using a by simp
    ultimately have "nat \<lceil>1 / (2 * q)\<rceil> < nat \<lceil>1 / q\<rceil>" by linarith
    then show ?thesis
      using a True by (simp del: divide_divide_eq_left times_divide_eq_left)
  next
    case False
    then have "\<lfloor>2 * q\<rfloor> = 1" using a by linarith
    moreover have "2 \<le> \<lceil>1 / q\<rceil>" using a by (simp add: field_simps)
    ultimately show ?thesis using a False by simp
  qed
next
  fix q :: rat
  assume a: "\<not> q \<le> 0" "\<not> q < 1" "2 \<le> q"
  have "\<lfloor>q / 2\<rfloor> < \<lfloor>q\<rfloor>" using a by linarith
  then show "(q / 2, q) \<in> measure (\<lambda>q. if q < 1 then nat \<lceil>1 / q\<rceil> else nat \<lfloor>q\<rfloor>)"
    using a by simp
qed

declare flog2.simps [simp del]

definition round_half_even :: "rat \<Rightarrow> int" where
  "round_half_even q =
     (let f = \<lfloor>q\<rfloor>; r = q - of_int f
      in if r < 1 / 2 then f
         else if 1 / 2 < r then f + 1
         else if even f then f else f + 1)"

definition fl :: "rat \<Rightarrow> float64" where
  "fl q = (if q = 0 then 0
           else let e = max (flog2 \<bar>q\<bar> - 52) (- 1074)
                in of_int (round_half_even (q / 2 powi e)) * 2 powi e)"

definition fmul :: "float64 \<Rightarrow> float64 \<Rightarrow> float64" where
  "fmul a b = fl (a * b)"

definition fadd :: "float64 \<Rightarrow> float64 \<Rightarrow> float64" where
  "fadd a b = fl (a + b)"

definition fsub :: "float64 \<Rightarrow> float64 \<Rightarrow> float64" where
  "fsub a b = fl (a - b)"

text \<open>The literals \<^verbatim>\<open>0.2989\<close>, \<^verbatim>\<open>0.5870\<close> and \<^verbatim>\<open>0.1140\<close>: Python reads each as the
  nearest binary64 value.\<close>

definition w_red :: float64 where
  "w_red = fl (2989 / 10000)"

definition w_green :: float64 where
  "w_green = fl (5870 / 10000)"

definition w_blue :: float64 where
  "w_blue = fl (1140 / 10000)"

text \<open>A \<^verbatim>\<open>uint8\<close> operand of a float64 operation is converted exactly.\<close>

definition float_of_u8 :: "u8 \<Rightarrow> float64" where
  "float_of_u8 c = of_nat (unat c)"

text \<open>\<^verbatim>\<open>np.round\<close> with no decimals rounds to the nearest integer, ties to even, and
  returns a float.\<close>

definition np_round :: "float64 \<Rightarrow> float64" where
  "np_round v = of_int (round_half_even v)"

text \<open>The conversion float64 to \<^verbatim>\<open>uint8\<close> of \<^verbatim>\<open>astype\<close> and of the element store: the
  fraction is dropped; a value outside 0..255 is not clamped (the model lets it wrap).\<close>

definition astype_uint8 :: "float64 \<Rightarrow> u8" where
  "astype_uint8 v = word_of_int (if 0 \<le> v then \<lfloor>v\<rfloor> else \<lceil>v\<rceil>)"

text \<open>The expression \<^verbatim>\<open>0.2989 * r + 0.5870 * g + 0.1140 * b\<close>, evaluated left to right.\<close>

definition weighted_sum :: "u8 \<Rightarrow> u8 \<Rightarrow> u8 \<Rightarrow> float64" where
  "weighted_sum r g b =
     fadd (fadd (fmul w_red (float_of_u8 r)) (fmul w_green (float_of_u8 g)))
          (fmul w_blue (float_of_u8 b))"

subsection \<open>Arrays, errors and the store\<close>

text \<open>An image is a rank-3 array in row-major order, sample \<open>(y, x, c)\<close> at index
  \<open>(y * width + x) * channels + c\<close>; a grayscale grid or a single channel is a rank-2
  array.  Equality of two such records is \<^verbatim>\<open>np.array_equal\<close>: same shape, same values.
  The specification's images have rank 3; arrays of another rank are not modelled.\<close>

record 'a array3 =
  height :: nat
  width :: nat
  channels :: nat
  samples :: "'a list"

record 'a array2 =
  rows :: nat
  cols :: nat
  elems :: "'a list"

text \<open>The exceptions.  \<open>CodecError\<close> stands for whatever the decoder or the encoder of
  scikit-image raises, \<open>OtherError\<close> for any exception of a profiled callable.
  \<open>BadReference\<close> is no Python exception: it is the model's answer where an address holds
  no array of the kind the operation needs, which the driver never brings about.\<close>

datatype error =
    IndexError
  | ValueError
  | AssertionError
  | FileExistsError
  | FileNotFoundError
  | IsADirectoryError
  | NotADirectoryError
  | CodecError
  | BadReference
  | OtherError string

datatype obj = Image "u8 array3" | Gray "u8 array2" | Plane "float64 array2"

type_synonym addr = nat

text \<open>The process-wide state the harness touches: the \<^verbatim>\<open>tracemalloc\<close> switch with its
  current and peak counters, and the wall clock, given as the sequence of values that
  successive \<^verbatim>\<open>time.time()\<close> calls return.\<close>

record process =
  tracing :: bool
  traced_current :: nat
  traced_peak :: nat
  clock :: "nat \<Rightarrow> float64"
  clock_reads :: nat

text \<open>The store of arrays: an address is an index into \<open>objs\<close>, allocation appends.
  \<open>junk\<close> is what uninitialised memory holds, for \<^verbatim>\<open>np.empty\<close>.\<close>

record memory = process +
  objs :: "obj list"
  junk :: "nat \<Rightarrow> u8"

type_synonym ('a, 's) prog = "'s \<Rightarrow> (error + 'a) \<times> 's"

definition ret :: "'a \<Rightarrow> ('a, 's) prog" where
  "ret x s = (Inr x, s)"

definition raise :: "error \<Rightarrow> ('a, 's) prog" where
  "raise e s = (Inl e, s)"

definition andthen :: "('a, 's) prog \<Rightarrow> ('a \<Rightarrow> ('b, 's) prog) \<Rightarrow> ('b, 's) prog" where
  "andthen m f s = (case m s of (Inl e, s') \<Rightarrow> (Inl e, s') | (Inr x, s') \<Rightarrow> f x s')"

text \<open>A step that cannot change the state: it only returns or raises.\<close>

definition lift :: "error + 'a \<Rightarrow> ('a, 's) prog" where
  "lift r s = (r, s)"

text \<open>\<^verbatim>\<open>for i in ...\<close>: the body runs for each item in turn; an exception ends the
  loop.  \<^verbatim>\<open>range(n)\<close> is the list \<open>[0..<n]\<close>.\<close>

fun for_each :: "'i list \<Rightarrow> ('i \<Rightarrow> (unit, 's) prog) \<Rightarrow> (unit, 's) prog" where
  "for_each [] body s = (Inr (), s)"
| "for_each (i # is) body s =
     (case body i s of (Inl e, s') \<Rightarrow> (Inl e, s') | (Inr u, s') \<Rightarrow> for_each is body s')"

definition alloc :: "obj \<Rightarrow> (addr, 'z memory_scheme) prog" where
  "alloc v s = (Inr (length (objs s)), s\<lparr>objs := objs s @ [v]\<rparr>)"

definition load_image :: "addr \<Rightarrow> (u8 array3, 'z memory_scheme) prog" where
  "load_image a s =
     (if a < length (objs s)
      then (case objs s ! a of Image img \<Rightarrow> (Inr img, s) | _ \<Rightarrow> (Inl BadReference, s))
      else (Inl BadReference, s))"

definition load_gray :: "addr \<Rightarrow> (u8 array2, 'z memory_scheme) prog" where
  "load_gray a s =
     (if a < length (objs s)
      then (case objs s ! a of Gray g \<Rightarrow> (Inr g, s) | _ \<Rightarrow> (Inl BadReference, s))
      else (Inl BadReference, s))"

subsection \<open>The NumPy operations the converters use\<close>

text \<open>\<^verbatim>\<open>image[:, :, k]\<close>: the channel \<open>k\<close> of every pixel; IndexError when the image has
  no such channel.\<close>

definition channel :: "'a array3 \<Rightarrow> nat \<Rightarrow> error + 'a array2" where
  "channel img k =
     (if k < channels img
      then Inr \<lparr>rows = height img, cols = width img,
                elems = map (\<lambda>p. samples img ! (p * channels img + k))
                          [0..<height img * width img]\<rparr>
      else Inl IndexError)"

text \<open>\<^verbatim>\<open>w * plane\<close> for a float \<open>w\<close> and a \<^verbatim>\<open>uint8\<close> array: a float64 array.\<close>

definition scalar_mul :: "float64 \<Rightarrow> u8 array2 \<Rightarrow> float64 array2" where
  "scalar_mul w a = \<lparr>rows = rows a, cols = cols a,
                     elems = map (\<lambda>c. fmul w (float_of_u8 c)) (elems a)\<rparr>"

text \<open>\<^verbatim>\<open>a + b\<close> on float64 arrays.  Both operands are channels of one image and so have
  one shape: no broadcasting takes place.\<close>

definition add_arrays :: "float64 array2 \<Rightarrow> float64 array2 \<Rightarrow> float64 array2" where
  "add_arrays a b = \<lparr>rows = rows a, cols = cols a,
                     elems = map (\<lambda>(u, v). fadd u v) (zip (elems a) (elems b))\<rparr>"

definition np_round_array :: "float64 array2 \<Rightarrow> float64 array2" where
  "np_round_array a = \<lparr>rows = rows a, cols = cols a, elems = map np_round (elems a)\<rparr>"

definition astype_uint8_array :: "float64 array2 \<Rightarrow> u8 array2" where
  "astype_uint8_array a = \<lparr>rows = rows a, cols = cols a, elems = map astype_uint8 (elems a)\<rparr>"

text \<open>\<^verbatim>\<open>np.empty((h, w), dtype=np.uint8)\<close>: a fresh array of whatever the memory held.\<close>

definition np_empty :: "nat \<Rightarrow> nat \<Rightarrow> (addr, 'z memory_scheme) prog" where
  "np_empty h w s = alloc (Gray \<lparr>rows = h, cols = w, elems = map (junk s) [0..<h * w]\<rparr>) s"

text \<open>\<^verbatim>\<open>r, g, b = image[y, x, :]\<close>: IndexError outside the grid, ValueError when the
  pixel does not unpack into exactly three values.\<close>

definition pixel :: "'a array3 \<Rightarrow> nat \<Rightarrow> nat \<Rightarrow> error + ('a \<times> 'a \<times> 'a)" where
  "pixel img y x =
     (if y < height img \<and> x < width img
      then (if channels img = 3
            then (let p = (y * width img + x) * 3
                  in Inr (samples img ! p, samples img ! (p + 1), samples img ! (p + 2)))
            else Inl ValueError)
      else Inl IndexError)"

text \<open>\<^verbatim>\<open>bw_image[y, x] = v\<close>: the float is converted to \<^verbatim>\<open>uint8\<close> and written in place.\<close>

definition store_item :: "addr \<Rightarrow> nat \<Rightarrow> nat \<Rightarrow> float64 \<Rightarrow> (unit, 'z memory_scheme) prog" where
  "store_item a y x v s =
     (if a < length (objs s)
      then (case objs s ! a of
              Gray g \<Rightarrow>
                (if y < rows g \<and> x < cols g
                 then (Inr (), s\<lparr>objs := (objs s)[a := Gray (g\<lparr>elems := (elems g)[y * cols g + x := astype_uint8 v]\<rparr>)]\<rparr>)
                 else (Inl IndexError, s))
            | _ \<Rightarrow> (Inl BadReference, s))
      else (Inl BadReference, s))"

subsection \<open>The three converters\<close>

text \<open>\<^verbatim>\<open>convert_numpy\<close> (lines 13 to 29): whole-array arithmetic; \<^verbatim>\<open>bw_image\<close> is a new
  float64 array and the result a new \<^verbatim>\<open>uint8\<close> array.\<close>

definition convert_numpy :: "addr \<Rightarrow> (addr, 'z memory_scheme) prog" where
  "convert_numpy image_ref =
     andthen (load_image image_ref) (\<lambda>img.
     andthen (lift (channel img 0)) (\<lambda>red.
     andthen (lift (channel img 1)) (\<lambda>green.
     andthen (lift (channel img 2)) (\<lambda>blue.
     let bw = np_round_array
                (add_arrays (add_arrays (scalar_mul w_red red) (scalar_mul w_green green))
                            (scalar_mul w_blue blue))
     in andthen (alloc (Plane bw)) (\<lambda>bw_image.
        alloc (Gray (astype_uint8_array bw)))))))"

text \<open>\<^verbatim>\<open>convert_numba\<close> (lines 32 to 49): the same body, compiled.\<close>

definition convert_numba :: "addr \<Rightarrow> (addr, 'z memory_scheme) prog" where
  "convert_numba image_ref =
     andthen (load_image image_ref) (\<lambda>img.
     andthen (lift (channel img 0)) (\<lambda>red.
     andthen (lift (channel img 1)) (\<lambda>green.
     andthen (lift (channel img 2)) (\<lambda>blue.
     let bw = np_round_array
                (add_arrays (add_arrays (scalar_mul w_red red) (scalar_mul w_green green))
                            (scalar_mul w_blue blue))
     in andthen (alloc (Plane bw)) (\<lambda>bw_image.
        alloc (Gray (astype_uint8_array bw)))))))"

text \<open>\<^verbatim>\<open>convert_numba_loop\<close> (lines 52 to 70): the output is preallocated with
  \<^verbatim>\<open>np.empty\<close>, every pixel is read from the image and written into the output in place,
  and the result is the copy \<^verbatim>\<open>astype\<close> makes.\<close>

definition loop_body :: "addr \<Rightarrow> addr \<Rightarrow> nat \<Rightarrow> nat \<Rightarrow> (unit, 'z memory_scheme) prog" where
  "loop_body image_ref bw_image y x =
     andthen (load_image image_ref) (\<lambda>img.
     andthen (lift (pixel img y x)) (\<lambda>(r, g, b).
     store_item bw_image y x (np_round (weighted_sum r g b))))"

definition convert_numba_loop :: "addr \<Rightarrow> (addr, 'z memory_scheme) prog" where
  "convert_numba_loop image_ref =
     andthen (load_image image_ref) (\<lambda>img.
     andthen (np_empty (height img) (width img)) (\<lambda>bw_image.
     andthen (for_each [0..<height img] (\<lambda>y.
                for_each [0..<width img] (\<lambda>x. loop_body image_ref bw_image y x))) (\<lambda>u.
     andthen (load_gray bw_image) (\<lambda>g.
     alloc (Gray g)))))"

subsection \<open>The profiling harness\<close>

text \<open>\<^verbatim>\<open>tracemalloc.start()\<close> does nothing when tracing is already on; otherwise it
  switches tracing on with fresh counters.  \<^verbatim>\<open>tracemalloc.get_traced_memory()\<close> returns
  the current and the peak size, \<open>(0, 0)\<close> when tracing is off.  \<^verbatim>\<open>tracemalloc.stop()\<close>
  switches tracing off and forgets the counters.  \<^verbatim>\<open>time.time()\<close> takes the next value
  of the clock.  What memory a callable uses while tracing is on is the callable's own
  effect on the counters; the model of the converters leaves them alone.\<close>

definition tracemalloc_start :: "(unit, 'z process_scheme) prog" where
  "tracemalloc_start s =
     (Inr (), if tracing s then s
              else s\<lparr>tracing := True, traced_current := 0, traced_peak := 0\<rparr>)"

definition tracemalloc_get_traced_memory :: "(nat \<times> nat, 'z process_scheme) prog" where
  "tracemalloc_get_traced_memory s =
     (Inr (if tracing s then (traced_current s, traced_peak s) else (0, 0)), s)"

definition tracemalloc_stop :: "(unit, 'z process_scheme) prog" where
  "tracemalloc_stop s =
     (Inr (), if tracing s
              then s\<lparr>tracing := False, traced_current := 0, traced_peak := 0\<rparr>
              else s)"

definition time_time :: "(float64, 'z process_scheme) prog" where
  "time_time s = (Inr (clock s (clock_reads s)), s\<lparr>clock_reads := Suc (clock_reads s)\<rparr>)"

text \<open>\<^verbatim>\<open>profile_function\<close> (lines 73 to 88).  \<open>func\<close> stands for the callable and
  \<open>args\<close> for all of \<^verbatim>\<open>*args, **kwargs\<close>.  There is no \<^verbatim>\<open>try\<close>: when \<open>func\<close> raises,
  the exception leaves the harness at once.\<close>

definition profile_function ::
  "('arg \<Rightarrow> ('r, 'z process_scheme) prog) \<Rightarrow> 'arg \<Rightarrow> ('r \<times> float64 \<times> nat, 'z process_scheme) prog"
where
  "profile_function func args =
     andthen tracemalloc_start (\<lambda>u.
     andthen time_time (\<lambda>start_time.
     andthen (func args) (\<lambda>output.
     andthen time_time (\<lambda>end_time.
     andthen tracemalloc_get_traced_memory (\<lambda>traced.
     let max_memory = snd traced in
     andthen tracemalloc_stop (\<lambda>u.
     let elapsed_time = fsub end_time start_time in
     ret (output, elapsed_time, max_memory)))))))"

text \<open>To count invocations, a callable is wrapped so that each invocation first notes its
  arguments in a log that the harness has no access to.\<close>

record 'arg probe = process +
  calls :: "'arg list"

definition logged ::
  "('arg \<Rightarrow> ('r, ('arg, 'z) probe_scheme) prog) \<Rightarrow> 'arg \<Rightarrow> ('r, ('arg, 'z) probe_scheme) prog"
where
  "logged func args s = func args (s\<lparr>calls := calls s @ [args]\<rparr>)"

text \<open>The state in which the harness invokes the callable: tracing on, one clock value
  taken.\<close>

definition at_call :: "'z process_scheme \<Rightarrow> 'z process_scheme" where
  "at_call s = snd (time_time (snd (tracemalloc_start s)))"

subsection \<open>The driver\<close>

text \<open>The file system below the working directory: a path is the list of its
  components, and \<open>files\<close> lists every entry, in directory order.  \<open>saved\<close> records the
  target of every \<^verbatim>\<open>io.imsave\<close>, in order.  The decoder of \<^verbatim>\<open>io.imread\<close> and the
  encoder of \<^verbatim>\<open>io.imsave\<close> belong to scikit-image and are parameters \<open>dec\<close> and
  \<open>enc\<close>.\<close>

datatype node = Dir | File "u8 list"

datatype line = Separator | Report string float64 nat

type_synonym path = "string list"

record machine = memory +
  files :: "(path \<times> node) list"
  stdout :: "line list"
  saved :: "path list"

definition ends_with :: "string \<Rightarrow> string \<Rightarrow> bool" where
  "ends_with suffix name \<longleftrightarrow>
     length suffix \<le> length name \<and> drop (length name - length suffix) name = suffix"

text \<open>\<^verbatim>\<open>Path.stem\<close>: the name up to its last dot, when that dot is neither the first nor
  the last character; the whole name otherwise.\<close>

definition stem :: "string \<Rightarrow> string" where
  "stem name =
     (let k = length (takeWhile (\<lambda>c. c \<noteq> CHR ''.'') (rev name))
      in if 0 < k \<and> Suc k < length name then take (length name - Suc k) name else name)"

text \<open>\<^verbatim>\<open>list((Path.cwd() / 'input').glob('*.JPG'))\<close>: the entries directly in
  \<^verbatim>\<open>input\<close> whose name ends in \<^verbatim>\<open>.JPG\<close>.\<close>

definition matches_JPG :: "path \<Rightarrow> bool" where
  "matches_JPG p = (case p of [d, name] \<Rightarrow> d = ''input'' \<and> ends_with ''.JPG'' name | _ \<Rightarrow> False)"

definition glob_JPG :: "(path list, 'z machine_scheme) prog" where
  "glob_JPG s = (Inr (filter matches_JPG (map fst (files s))), s)"

text \<open>\<^verbatim>\<open>output_path.mkdir(exist_ok=True, parents=True)\<close>.  The path is one component below
  the working directory, which exists, so there is no parent left to create.\<close>

definition mkdir_exist_ok :: "path \<Rightarrow> (unit, 'z machine_scheme) prog" where
  "mkdir_exist_ok p s =
     (case map_of (files s) p of
        None \<Rightarrow> (Inr (), s\<lparr>files := files s @ [(p, Dir)]\<rparr>)
      | Some Dir \<Rightarrow> (Inr (), s)
      | Some (File bs) \<Rightarrow> (Inl FileExistsError, s))"

definition imread :: "(u8 list \<Rightarrow> error + u8 array3) \<Rightarrow> path \<Rightarrow> (addr, 'z machine_scheme) prog" where
  "imread dec p s =
     (case map_of (files s) p of
        None \<Rightarrow> (Inl FileNotFoundError, s)
      | Some Dir \<Rightarrow> (Inl IsADirectoryError, s)
      | Some (File bs) \<Rightarrow>
          (case dec bs of Inl e \<Rightarrow> (Inl e, s) | Inr img \<Rightarrow> alloc (Image img) s))"

definition write_file :: "path \<Rightarrow> u8 list \<Rightarrow> (unit, 'z machine_scheme) prog" where
  "write_file p bs s =
     (case map_of (files s) (butlast p) of
        None \<Rightarrow> (Inl FileNotFoundError, s)
      | Some (File x) \<Rightarrow> (Inl NotADirectoryError, s)
      | Some Dir \<Rightarrow>
          (case map_of (files s) p of
             Some Dir \<Rightarrow> (Inl IsADirectoryError, s)
           | _ \<Rightarrow> (Inr (), s\<lparr>files := AList.update p (File bs) (files s),
                               saved := saved s @ [p]\<rparr>)))"

definition imsave :: "(u8 array2 \<Rightarrow> error + u8 list) \<Rightarrow> path \<Rightarrow> addr \<Rightarrow> (unit, 'z machine_scheme) prog" where
  "imsave enc p a =
     andthen (load_gray a) (\<lambda>g.
     andthen (lift (enc g)) (\<lambda>bs.
     write_file p bs))"

definition print_line :: "line \<Rightarrow> (unit, 'z machine_scheme) prog" where
  "print_line l s = (Inr (), s\<lparr>stdout := stdout s @ [l]\<rparr>)"

text \<open>\<^verbatim>\<open>assert np.array_equal(a, b)\<close>, with assertions enabled (the script's
  interpreter line passes no \<^verbatim>\<open>-O\<close>).\<close>

definition assert_array_equal :: "addr \<Rightarrow> addr \<Rightarrow> (unit, 'z memory_scheme) prog" where
  "assert_array_equal a b =
     andthen (load_gray a) (\<lambda>x.
     andthen (load_gray b) (\<lambda>y.
     if x = y then ret () else raise AssertionError))"

text \<open>One converter's turn in the loop body (lines 125 and 126, 128 and 129, 132 and
  133): it is profiled and its figures are printed.\<close>

definition timed ::
  "string \<Rightarrow> (addr \<Rightarrow> (addr, 'z machine_scheme) prog) \<Rightarrow> addr \<Rightarrow> (addr, 'z machine_scheme) prog"
where
  "timed label conv img =
     andthen (profile_function conv img) (\<lambda>(bw_image, e_time, mem).
     andthen (print_line (Report label e_time mem)) (\<lambda>u.
     ret bw_image))"

text \<open>The body of the loop of \<^verbatim>\<open>main\<close> (lines 121 to 138) for the input path \<open>e\<close>.  The
  three converters are looked up by name when the body runs; they are parameters here,
  so that the two assertions can be studied for converters that disagree.\<close>

definition process_file ::
  "(addr \<Rightarrow> (addr, 'z machine_scheme) prog) \<Rightarrow> (addr \<Rightarrow> (addr, 'z machine_scheme) prog) \<Rightarrow>
   (addr \<Rightarrow> (addr, 'z machine_scheme) prog) \<Rightarrow>
   (u8 list \<Rightarrow> error + u8 array3) \<Rightarrow> (u8 array2 \<Rightarrow> error + u8 list) \<Rightarrow>
   path \<Rightarrow> (unit, 'z machine_scheme) prog"
where
  "process_file conv_a conv_b conv_c dec enc e =
     andthen (imread dec e) (\<lambda>img.
     andthen (print_line Separator) (\<lambda>u.
     andthen (timed ''numpy'' conv_a img) (\<lambda>bw_image_a.
     andthen (timed ''numba'' conv_b img) (\<lambda>bw_image_b.
     andthen (assert_array_equal bw_image_a bw_image_b) (\<lambda>u.
     andthen (timed ''numba_loop'' conv_c img) (\<lambda>bw_image_c.
     andthen (assert_array_equal bw_image_a bw_image_c) (\<lambda>u.
     imsave enc [''output'', stem (last e) @ ''_bw.jpg''] bw_image_a)))))))"

definition main_with ::
  "(addr \<Rightarrow> (addr, 'z machine_scheme) prog) \<Rightarrow> (addr \<Rightarrow> (addr, 'z machine_scheme) prog) \<Rightarrow>
   (addr \<Rightarrow> (addr, 'z machine_scheme) prog) \<Rightarrow>
   (u8 list \<Rightarrow> error + u8 array3) \<Rightarrow> (u8 array2 \<Rightarrow> error + u8 list) \<Rightarrow>
   (unit, 'z machine_scheme) prog"
where
  "main_with conv_a conv_b conv_c dec enc =
     andthen glob_JPG (\<lambda>input_filepaths.
     andthen (mkdir_exist_ok [''output'']) (\<lambda>u.
     for_each input_filepaths (process_file conv_a conv_b conv_c dec enc)))"

text \<open>\<^verbatim>\<open>main\<close> (lines 91 to 138).\<close>

definition main ::
  "(u8 list \<Rightarrow> error + u8 array3) \<Rightarrow> (u8 array2 \<Rightarrow> error + u8 list) \<Rightarrow> (unit, 'z machine_scheme) prog"
where
  "main dec enc = main_with convert_numpy convert_numba convert_numba_loop dec enc"

subsection \<open>The specification's words, and notions used to state the properties\<close>

text \<open>The specification's per-pixel transform: the weighted sum, rounded to the nearest
  integer, cast to \<^verbatim>\<open>uint8\<close>; and the grid it gives for a whole image.\<close>

definition luminance :: "u8 \<Rightarrow> u8 \<Rightarrow> u8 \<Rightarrow> u8" where
  "luminance r g b = astype_uint8 (np_round (weighted_sum r g b))"

definition pixel_luminance :: "u8 array3 \<Rightarrow> nat \<Rightarrow> u8" where
  "pixel_luminance img p =
     luminance (samples img ! (p * 3)) (samples img ! (p * 3 + 1)) (samples img ! (p * 3 + 2))"

definition grayscale :: "u8 array3 \<Rightarrow> u8 array2" where
  "grayscale img =
     \<lparr>rows = height img, cols = width img,
      elems = map (pixel_luminance img) [0..<height img * width img]\<rparr>"

text \<open>The weighted sum with the decimal weights taken exactly, without any rounding.\<close>

definition exact_sum :: "u8 \<Rightarrow> u8 \<Rightarrow> u8 \<Rightarrow> rat" where
  "exact_sum r g b =
     2989 / 10000 * float_of_u8 r + 5870 / 10000 * float_of_u8 g
       + 1140 / 10000 * float_of_u8 b"

definition ulp53 :: rat where
  "ulp53 = 1 / 2 ^ 53"

text \<open>A valid input: three channels, and as many samples as the shape says.\<close>

definition valid_image :: "u8 array3 \<Rightarrow> bool" where
  "valid_image img \<longleftrightarrow>
     channels img = 3 \<and> length (samples img) = height img * width img * 3"

definition holds_image :: "'z memory_scheme \<Rightarrow> addr \<Rightarrow> u8 array3 \<Rightarrow> bool" where
  "holds_image s a img \<longleftrightarrow> a < length (objs s) \<and> objs s ! a = Image img"

text \<open>The grid a converter call returned: the array at the address it returned, in the
  store it left.\<close>

definition result_grid :: "(error + addr) \<times> 'z memory_scheme \<Rightarrow> error + u8 array2" where
  "result_grid res =
     (case res of (Inl e, s) \<Rightarrow> Inl e | (Inr r, s) \<Rightarrow> fst (load_gray r s))"

text \<open>Everything that was in the store \<open>old\<close> is still there, unchanged.\<close>

definition frame :: "obj list \<Rightarrow> 'z memory_scheme \<Rightarrow> bool" where
  "frame old s \<longleftrightarrow> take (length old) (objs s) = old"

text \<open>The float64 array \<^verbatim>\<open>bw_image\<close> of the vectorised converters, and the output of the
  loop converter after \<open>k\<close> pixels have been written over the old content.\<close>

definition weighted_plane :: "u8 array3 \<Rightarrow> float64 array2" where
  "weighted_plane img =
     \<lparr>rows = height img, cols = width img,
      elems = map (\<lambda>p. np_round (weighted_sum (samples img ! (p * 3))
                                  (samples img ! (p * 3 + 1)) (samples img ! (p * 3 + 2))))
                [0..<height img * width img]\<rparr>"

definition partial_gray :: "u8 array3 \<Rightarrow> u8 list \<Rightarrow> nat \<Rightarrow> u8 array2" where
  "partial_gray img old k =
     \<lparr>rows = height img, cols = width img,
      elems = map (pixel_luminance img) [0..<k] @ drop k old\<rparr>"

definition has_shape_of :: "u8 array3 \<Rightarrow> error + u8 array2 \<Rightarrow> bool" where
  "has_shape_of img res \<longleftrightarrow>
     (\<exists>out. res = Inr out \<and> rows out = height img \<and> cols out = width img
            \<and> length (elems out) = height img * width img)"

definition pixel_is_rounded_sum :: "u8 array3 \<Rightarrow> nat \<Rightarrow> nat \<Rightarrow> error + u8 array2 \<Rightarrow> bool" where
  "pixel_is_rounded_sum img y x res \<longleftrightarrow>
     (\<exists>out. res = Inr out \<and>
        (let p = (y * width img + x) * 3;
             r = samples img ! p; g = samples img ! (p + 1); b = samples img ! (p + 2);
             v = elems out ! (y * cols out + x)
         in v = astype_uint8 (np_round (weighted_sum r g b))
            \<and> uint v = round_half_even (weighted_sum r g b)
            \<and> \<bar>of_int (uint v) - exact_sum r g b\<bar> \<le> 1 / 2))"

text \<open>Concrete stores, for instances of the theorems.\<close>

definition memory_of :: "obj list \<Rightarrow> memory" where
  "memory_of xs = \<lparr>tracing = False, traced_current = 0, traced_peak = 0,
                    clock = (\<lambda>n. of_nat n), clock_reads = 0,
                    objs = xs, junk = (\<lambda>i. 7)\<rparr>"

definition idle_process :: process where
  "idle_process = \<lparr>tracing = False, traced_current = 0, traced_peak = 0,
                    clock = (\<lambda>n. of_nat n), clock_reads = 0\<rparr>"

definition idle_probe :: "nat probe" where
  "idle_probe = \<lparr>tracing = False, traced_current = 0, traced_peak = 0,
                  clock = (\<lambda>n. of_nat n), clock_reads = 0, calls = []\<rparr>"

text \<open>A callable that raises, and one that returns after using some memory.\<close>

definition failing :: "unit \<Rightarrow> (unit, process) prog" where
  "failing u = raise (OtherError ''boom'')"

definition successor :: "nat \<Rightarrow> (nat, nat probe) prog" where
  "successor n s = (Inr (Suc n), s\<lparr>traced_current := 40, traced_peak := 100\<rparr>)"

definition two_pixels :: "u8 array3" where
  "two_pixels = \<lparr>height = 1, width = 2, channels = 3, samples = [255, 0, 0, 10, 200, 30]\<rparr>"

definition no_columns :: "u8 array3" where
  "no_columns = \<lparr>height = 2, width = 0, channels = 3, samples = []\<rparr>"

definition mid_gray :: "u8 array3" where
  "mid_gray = \<lparr>height = 4, width = 4, channels = 3, samples = replicate 48 128\<rparr>"

text \<open>A property of the state that no change of the array store affects.\<close>

definition objs_only :: "('z memory_scheme \<Rightarrow> bool) \<Rightarrow> bool" where
  "objs_only P \<longleftrightarrow> (\<forall>t xs. P t \<longrightarrow> P (t\<lparr>objs := xs\<rparr>))"

text \<open>A converter that leaves the file system and the record of saved files alone;
  \<open>same_files s t\<close>: the two states agree on both.\<close>

definition leaves_files :: "(addr \<Rightarrow> (addr, 'z machine_scheme) prog) \<Rightarrow> bool" where
  "leaves_files conv \<longleftrightarrow>
     (\<forall>a t. files (snd (conv a t)) = files t \<and> saved (snd (conv a t)) = saved t)"

definition same_files :: "'z machine_scheme \<Rightarrow> 'z machine_scheme \<Rightarrow> bool" where
  "same_files s t \<longleftrightarrow> files t = files s \<and> saved t = saved s"

text \<open>The output path for the input path \<open>e\<close> (lines 136 and 137).\<close>

definition target :: "path \<Rightarrow> path" where
  "target e = [''output'', stem (last e) @ ''_bw.jpg'']"

text \<open>For instances of the driver's theorems: a converter that returns an empty grid
  whatever the image, a machine with one photo, and a trivial codec.\<close>

definition blank_converter :: "addr \<Rightarrow> (addr, 'z memory_scheme) prog" where
  "blank_converter a = alloc (Gray \<lparr>rows = 0, cols = 0, elems = []\<rparr>)"

definition photo_machine :: machine where
  "photo_machine =
     \<lparr>tracing = False, traced_current = 0, traced_peak = 0,
      clock = (\<lambda>n. of_nat n), clock_reads = 0, objs = [], junk = (\<lambda>i. 7),
      files = [([''input''], Dir), ([''input'', ''a.JPG''], File [1, 2, 3])],
      stdout = [], saved = []\<rparr>"

definition decode_two_pixels :: "u8 list \<Rightarrow> error + u8 array3" where
  "decode_two_pixels bs = Inr two_pixels"

definition encode_raw :: "u8 array2 \<Rightarrow> error + u8 list" where
  "encode_raw g = Inr (elems g)"

text \<open>The file system holds a regular file at the path.\<close>

definition written :: "'z machine_scheme \<Rightarrow> path \<Rightarrow> bool" where
  "written s p \<longleftrightarrow> (\<exists>bs. map_of (files s) p = Some (File bs))"

section \<open>Verification\<close>

subsection \<open>Rounding to binary64\<close>

lemma flog2_bounds: "0 < q \<Longrightarrow> 2 powi (flog2 q) \<le> q \<and> q < 2 powi (flog2 q + 1)"
proof (induction q rule: flog2.induct)
  case (1 q)
  show ?case
  proof (cases "q < 1")
    case True
    then have eq: "flog2 q = flog2 (2 * q) - 1" using 1(3) by (subst flog2.simps) simp
    have ih: "2 powi (flog2 (2 * q)) \<le> 2 * q \<and> 2 * q < 2 powi (flog2 (2 * q) + 1)"
      using 1(1) 1(3) True by simp
    show ?thesis using ih unfolding eq
      by (simp add: power_int_diff power_int_add)
  next
    case False
    show ?thesis
    proof (cases "2 \<le> q")
      case True
      then have eq: "flog2 q = flog2 (q / 2) + 1" using False 1(3) by (subst flog2.simps) simp
      have ih: "2 powi (flog2 (q / 2)) \<le> q / 2 \<and> q / 2 < 2 powi (flog2 (q / 2) + 1)"
        using 1(2) 1(3) True False by simp
      show ?thesis using ih unfolding eq
        by (simp add: power_int_diff power_int_add)
    next
      case small: False
      then have eq: "flog2 q = 0" using False 1(3) by (subst flog2.simps) simp
      show ?thesis using False small unfolding eq by simp
    qed
  qed
qed

lemma round_half_even_err: "\<bar>of_int (round_half_even q) - q\<bar> \<le> 1 / 2"
proof -
  have "of_int \<lfloor>q\<rfloor> \<le> q" "q < of_int \<lfloor>q\<rfloor> + 1" by linarith+
  then show ?thesis
    unfolding round_half_even_def Let_def by (simp add: abs_le_iff)
qed

lemma round_half_even_nonneg: "0 \<le> q \<Longrightarrow> 0 \<le> round_half_even q"
  unfolding round_half_even_def Let_def by (simp add: abs_le_iff)

lemma fl_zero: "fl 0 = 0"
  by (simp add: fl_def)

lemma fl_nonneg: "0 \<le> q \<Longrightarrow> 0 \<le> fl q"
  unfolding fl_def Let_def
  by (simp add: round_half_even_nonneg)

text \<open>In the normal range the rounding error is at most half a unit in the last place.\<close>

lemma fl_err:
  assumes big: "2 powi (- 1022) \<le> \<bar>q\<bar>"
  shows "\<bar>fl q - q\<bar> \<le> \<bar>q\<bar> / 2 ^ 53"
proof -
  have "(0::rat) < 2 powi (- 1022)" by (rule zero_less_power_int) simp
  then have pos: "0 < \<bar>q\<bar>" using big by linarith
  then have q0: "q \<noteq> 0" by simp
  let ?l = "flog2 \<bar>q\<bar>"
  from flog2_bounds [OF pos] have lo: "2 powi ?l \<le> \<bar>q\<bar>" and hi: "\<bar>q\<bar> < 2 powi (?l + 1)"
    by simp_all
  have "(2::rat) powi (- 1022) < 2 powi (?l + 1)" using big hi by linarith
  then have "- 1022 < ?l + 1"
    using power_int_increasing [of "?l + 1" "- 1022" "2::rat"]
    by (cases "- 1022 < ?l + 1") auto
  then have e: "max (?l - 52) (- 1074) = ?l - 52" by simp
  let ?p = "(2::rat) powi (?l - 52)"
  have ppos: "0 < ?p" by simp
  have fl: "fl q = of_int (round_half_even (q / ?p)) * ?p"
    using q0 by (simp add: fl_def Let_def e)
  have "fl q - q = (of_int (round_half_even (q / ?p)) - q / ?p) * ?p"
    using ppos by (simp add: fl field_simps)
  then have "\<bar>fl q - q\<bar> = \<bar>of_int (round_half_even (q / ?p)) - q / ?p\<bar> * ?p"
    using ppos by (simp add: abs_mult)
  also have "\<dots> \<le> 1 / 2 * ?p"
    using round_half_even_err [of "q / ?p"] ppos by (intro mult_right_mono) simp_all
  also have "\<dots> = 2 powi ?l / 2 ^ 53"
    by (simp add: power_int_diff)
  also have "\<dots> \<le> \<bar>q\<bar> / 2 ^ 53"
    using lo by (simp add: divide_right_mono)
  finally show ?thesis .
qed

lemma fl_err0:
  assumes "q = 0 \<or> 1 / 64 \<le> \<bar>q\<bar>"
  shows "\<bar>fl q - q\<bar> \<le> \<bar>q\<bar> / 2 ^ 53"
proof (cases "q = 0")
  case True
  then show ?thesis by (simp add: fl_zero)
next
  case False
  have "(2::rat) powi (- 1022) \<le> 2 powi (- 6)"
    by (rule power_int_increasing) simp_all
  also have "\<dots> = 1 / 64" by (simp add: power_int_minus field_simps)
  finally have "2 powi (- 1022) \<le> \<bar>q\<bar>" using assms False by linarith
  then show ?thesis by (rule fl_err)
qed

text \<open>Evaluating the rounding on numerals.\<close>

lemma floor_rat_numeral: "\<lfloor>numeral a / numeral b :: rat\<rfloor> = numeral a div numeral b"
  using floor_divide_of_int_eq [of "numeral a" "numeral b", where ?'a = rat] by simp

lemmas fl_eval = fl_def round_half_even_def Let_def flog2.simps floor_rat_numeral

lemma w_red_val: "w_red = 5384503714484165 / 2 ^ 54"
  by (simp add: w_red_def fl_eval)

lemma w_green_val: "w_green = 2643612981266481 / 2 ^ 52"
  by (simp add: w_green_def fl_eval)

lemma w_blue_val: "w_blue = 8214565720323785 / 2 ^ 56"
  by (simp add: w_blue_def fl_eval)

lemma ulp53_bounds: "0 < ulp53" "ulp53 \<le> 1 / 1000000000000000"
  by (simp_all add: ulp53_def)

subsection \<open>The weighted sum stays within 0..255 and next to the exact sum\<close>

lemma fmul_weight:
  fixes w :: rat and n :: nat
  assumes w: "1 / 9 \<le> w" "w \<le> 3 / 5" and n: "n \<le> 255"
  shows "\<bar>fmul w (of_nat n) - w * of_nat n\<bar> \<le> w * of_nat n * ulp53"
    and "0 \<le> fmul w (of_nat n)"
    and "fmul w (of_nat n) = 0 \<or> 1 / 32 \<le> fmul w (of_nat n)"
proof -
  let ?q = "w * of_nat n"
  have q0: "0 \<le> ?q" using w by simp
  have ge: "w \<le> ?q" if "n \<noteq> 0"
  proof -
    have "(1::rat) \<le> of_nat n" using that by simp
    then have "w * 1 \<le> w * of_nat n" using w by (intro mult_left_mono) simp_all
    then show ?thesis by simp
  qed
  have qz: "?q = 0 \<or> 1 / 64 \<le> \<bar>?q\<bar>"
  proof (cases "n = 0")
    case True then show ?thesis by simp
  next
    case False
    from ge [OF False] w(1) have "1 / 64 \<le> \<bar>?q\<bar>" by linarith
    then show ?thesis ..
  qed
  have err: "\<bar>fl ?q - ?q\<bar> \<le> ?q * ulp53"
    using fl_err0 [OF qz] q0 by (simp add: ulp53_def)
  show "\<bar>fmul w (of_nat n) - w * of_nat n\<bar> \<le> w * of_nat n * ulp53"
    using err by (simp add: fmul_def)
  show "0 \<le> fmul w (of_nat n)"
    using fl_nonneg [OF q0] by (simp add: fmul_def)
  show "fmul w (of_nat n) = 0 \<or> 1 / 32 \<le> fmul w (of_nat n)"
  proof (cases "n = 0")
    case True
    then show ?thesis by (simp add: fmul_def fl_zero)
  next
    case False
    have "?q * ulp53 \<le> ?q * (1 / 1000000000000000)"
      using q0 ulp53_bounds by (intro mult_left_mono) simp_all
    then have "?q * ulp53 \<le> ?q / 2" using q0 by linarith
    then have "?q / 2 \<le> fl ?q" using err by linarith
    then have "1 / 32 \<le> fl ?q" using ge [OF False] w(1) by linarith
    then show ?thesis by (simp add: fmul_def)
  qed
qed


lemma fadd_nonneg:
  fixes p q :: rat
  assumes p: "0 \<le> p" "p = 0 \<or> 1 / 64 \<le> p" and q: "0 \<le> q" "q = 0 \<or> 1 / 64 \<le> q"
  shows "\<bar>fadd p q - (p + q)\<bar> \<le> (p + q) * ulp53"
    and "0 \<le> fadd p q"
proof -
  have z: "p + q = 0 \<or> 1 / 64 \<le> \<bar>p + q\<bar>" using p q by linarith
  show "\<bar>fadd p q - (p + q)\<bar> \<le> (p + q) * ulp53"
    using fl_err0 [OF z] p q by (simp add: fadd_def ulp53_def)
  show "0 \<le> fadd p q"
    using fl_nonneg [of "p + q"] p q by (simp add: fadd_def)
qed

lemma weight_bounds:
  "\<bar>w_red - 2989 / 10000\<bar> \<le> (3 / 10) * ulp53" "1 / 9 \<le> w_red" "w_red \<le> 3 / 10"
  "\<bar>w_green - 5870 / 10000\<bar> \<le> (3 / 5) * ulp53" "1 / 9 \<le> w_green" "w_green \<le> 3 / 5"
  "\<bar>w_blue - 1140 / 10000\<bar> \<le> (3 / 25) * ulp53" "1 / 9 \<le> w_blue" "w_blue \<le> 3 / 25"
proof -
  have r: "\<bar>w_red - 2989 / 10000\<bar> \<le> (2989 / 10000) * ulp53"
    using fl_err0 [of "2989 / 10000"] by (simp add: w_red_def ulp53_def)
  have g: "\<bar>w_green - 5870 / 10000\<bar> \<le> (5870 / 10000) * ulp53"
    using fl_err0 [of "5870 / 10000"] by (simp add: w_green_def ulp53_def)
  have b: "\<bar>w_blue - 1140 / 10000\<bar> \<le> (1140 / 10000) * ulp53"
    using fl_err0 [of "1140 / 10000"] by (simp add: w_blue_def ulp53_def)
  note u = ulp53_bounds
  show "\<bar>w_red - 2989 / 10000\<bar> \<le> (3 / 10) * ulp53" using r u by linarith
  show "1 / 9 \<le> w_red" using r u by linarith
  show "w_red \<le> 3 / 10" using r u by linarith
  show "\<bar>w_green - 5870 / 10000\<bar> \<le> (3 / 5) * ulp53" using g u by linarith
  show "1 / 9 \<le> w_green" using g u by linarith
  show "w_green \<le> 3 / 5" using g u by linarith
  show "\<bar>w_blue - 1140 / 10000\<bar> \<le> (3 / 25) * ulp53" using b u by linarith
  show "1 / 9 \<le> w_blue" using b u by linarith
  show "w_blue \<le> 3 / 25" using b u by linarith
qed

lemma weighted_term:
  fixes w w0 hi :: rat and n :: nat
  assumes w: "\<bar>w - w0\<bar> \<le> hi * ulp53" "1 / 9 \<le> w" "w \<le> hi" "hi \<le> 3 / 5" and n: "n \<le> 255"
  shows "\<bar>fmul w (of_nat n) - w0 * of_nat n\<bar> \<le> 510 * hi * ulp53"
proof -
  let ?a = "of_nat n :: rat"
  have a: "0 \<le> ?a" "?a \<le> 255" using n by simp_all
  have w2: "w \<le> 3 / 5" using w by linarith
  have hi0: "0 \<le> hi" using w by linarith
  have x: "w * ?a \<le> hi * 255" using w a by (intro mult_mono) simp_all
  have "w * ?a * ulp53 \<le> hi * 255 * ulp53"
    using x ulp53_bounds by (intro mult_right_mono) simp_all
  then have e1: "\<bar>fmul w ?a - w * ?a\<bar> \<le> 255 * hi * ulp53"
    using fmul_weight(1) [OF w(2) w2 n] by linarith
  have "\<bar>w * ?a - w0 * ?a\<bar> = \<bar>w - w0\<bar> * ?a"
    using a by (simp add: abs_mult flip: left_diff_distrib)
  also have "\<dots> \<le> (hi * ulp53) * 255"
    using w(1) a hi0 ulp53_bounds by (intro mult_mono) simp_all
  finally have e2: "\<bar>w * ?a - w0 * ?a\<bar> \<le> 255 * hi * ulp53" by simp
  show ?thesis using e1 e2 by linarith
qed


lemma unat_u8_le: "unat (c :: u8) \<le> 255"
proof -
  have "unat c < 2 ^ LENGTH(8)" by (rule unsigned_less)
  then show ?thesis by simp
qed

lemma float_of_u8_bounds: "0 \<le> float_of_u8 c" "float_of_u8 c \<le> 255"
proof -
  show "0 \<le> float_of_u8 c" unfolding float_of_u8_def by (rule of_nat_0_le_iff)
  have "(of_nat (unat c) :: rat) \<le> of_nat 255"
    using unat_u8_le [of c] by (rule of_nat_mono)
  then show "float_of_u8 c \<le> 255" unfolding float_of_u8_def by (simp del: of_nat_unat)
qed

lemma weighted_sum_err:
  "\<bar>weighted_sum r g b - exact_sum r g b\<bar> \<le> 1024 * ulp53"
  "0 \<le> weighted_sum r g b"
proof -
  let ?a = "float_of_u8 r" and ?b = "float_of_u8 g" and ?c = "float_of_u8 b"
  let ?p1 = "fmul w_red ?a" and ?p2 = "fmul w_green ?b" and ?p3 = "fmul w_blue ?c"
  note u = ulp53_bounds
  note wb = weight_bounds
  have a: "0 \<le> ?a" "?a \<le> 255" "0 \<le> ?b" "?b \<le> 255" "0 \<le> ?c" "?c \<le> 255"
    by (rule float_of_u8_bounds)+
  have e1: "\<bar>?p1 - 2989 / 10000 * ?a\<bar> \<le> 153 * ulp53"
    using weighted_term [OF wb(1) wb(2) wb(3) _ unat_u8_le [of r]]
    unfolding float_of_u8_def by (simp del: of_nat_unat)
  have e2: "\<bar>?p2 - 5870 / 10000 * ?b\<bar> \<le> 306 * ulp53"
    using weighted_term [OF wb(4) wb(5) wb(6) _ unat_u8_le [of g]]
    unfolding float_of_u8_def by (simp del: of_nat_unat)
  have e3: "\<bar>?p3 - 1140 / 10000 * ?c\<bar> \<le> 62 * ulp53"
    using weighted_term [OF wb(7) wb(8) wb(9) _ unat_u8_le [of b]] u
    unfolding float_of_u8_def by (simp del: of_nat_unat)
  have w35: "w_red \<le> 3 / 5" "w_blue \<le> 3 / 5" using wb by linarith+
  note p1 = fmul_weight(2,3) [OF wb(2) w35(1) unat_u8_le [of r], folded float_of_u8_def]
  note p2 = fmul_weight(2,3) [OF wb(5) wb(6) unat_u8_le [of g], folded float_of_u8_def]
  note p3 = fmul_weight(2,3) [OF wb(8) w35(2) unat_u8_le [of b], folded float_of_u8_def]
  have z1: "?p1 = 0 \<or> 1 / 64 \<le> ?p1" using p1 by linarith
  have z2: "?p2 = 0 \<or> 1 / 64 \<le> ?p2" using p2 by linarith
  have z3: "?p3 = 0 \<or> 1 / 64 \<le> ?p3" using p3 by linarith
  let ?s1 = "fadd ?p1 ?p2"
  note s1 = fadd_nonneg [OF p1(1) z1 p2(1) z2]
  have p12: "0 \<le> ?p1 + ?p2" "?p1 + ?p2 \<le> 227"
    using p1(1) p2(1) e1 e2 a u by linarith+
  have "(?p1 + ?p2) * ulp53 \<le> 227 * ulp53"
    using p12 u by (intro mult_right_mono) simp_all
  then have e4: "\<bar>?s1 - (?p1 + ?p2)\<bar> \<le> 227 * ulp53" using s1(1) by linarith
  have z4: "?s1 = 0 \<or> 1 / 64 \<le> ?s1"
  proof (cases "?p1 + ?p2 = 0")
    case True
    then show ?thesis by (simp add: fadd_def fl_zero)
  next
    case False
    define t where "t = ?p1 + ?p2"
    have big: "1 / 32 \<le> t" using False p1 p2 unfolding t_def by linarith
    have "t * ulp53 \<le> t * (1 / 2)"
      using big u by (intro mult_left_mono) simp_all
    then have half: "t * ulp53 \<le> t / 2" by simp
    have "\<bar>?s1 - t\<bar> \<le> t * ulp53" using s1(1) unfolding t_def .
    then have "1 / 64 \<le> ?s1" using half big by linarith
    then show ?thesis ..
  qed
  note ws = fadd_nonneg [OF s1(2) z4 p3(1) z3]
  have s13: "0 \<le> ?s1 + ?p3" "?s1 + ?p3 \<le> 257"
    using s1(2) p3(1) e4 p12 e3 a u by linarith+
  have "(?s1 + ?p3) * ulp53 \<le> 257 * ulp53"
    using s13 u by (intro mult_right_mono) simp_all
  then have e5: "\<bar>fadd ?s1 ?p3 - (?s1 + ?p3)\<bar> \<le> 257 * ulp53" using ws(1) by linarith
  show "\<bar>weighted_sum r g b - exact_sum r g b\<bar> \<le> 1024 * ulp53"
    unfolding weighted_sum_def exact_sum_def
    using e1 e2 e3 e4 e5 u by linarith
  show "0 \<le> weighted_sum r g b"
    unfolding weighted_sum_def using ws(2) .
qed


lemma exact_sum_bounds: "0 \<le> exact_sum r g b" "exact_sum r g b \<le> 255"
  unfolding exact_sum_def
  using float_of_u8_bounds [of r] float_of_u8_bounds [of g] float_of_u8_bounds [of b]
  by linarith+

lemma rounded_sum_range:
  "0 \<le> round_half_even (weighted_sum r g b)" "round_half_even (weighted_sum r g b) \<le> 255"
proof -
  let ?ws = "weighted_sum r g b"
  show "0 \<le> round_half_even ?ws"
    using weighted_sum_err(2) by (rule round_half_even_nonneg)
  have "?ws \<le> 255 + 1 / 4" 
    using weighted_sum_err(1) [of r g b] exact_sum_bounds(2) [of r g b] ulp53_bounds
    by linarith
  then have "(of_int (round_half_even ?ws) :: rat) < 256"
    using round_half_even_err [of ?ws] by linarith
  then have "round_half_even ?ws < 256" by linarith
  then show "round_half_even ?ws \<le> 255" by simp
qed

lemma astype_uint8_of_int: "astype_uint8 (of_int n) = word_of_int n"
  by (simp add: astype_uint8_def)

lemma luminance_uint: "uint (luminance r g b) = round_half_even (weighted_sum r g b)"
proof -
  let ?n = "round_half_even (weighted_sum r g b)"
  have "uint (word_of_int ?n :: u8) = take_bit 8 ?n"
    by (simp add: uint_word_of_int take_bit_eq_mod)
  also have "\<dots> = ?n"
    using rounded_sum_range [of r g b] by (simp add: take_bit_int_eq_self)
  finally show ?thesis
    by (simp add: luminance_def np_round_def astype_uint8_of_int)
qed

lemma luminance_nearest: "\<bar>of_int (uint (luminance r g b)) - exact_sum r g b\<bar> \<le> 1 / 2"
proof -
  let ?n = "round_half_even (weighted_sum r g b)"
  let ?m = "2989 * int (unat r) + 5870 * int (unat g) + 1140 * int (unat b)"
  have ex: "exact_sum r g b = of_int ?m / 10000"
    unfolding exact_sum_def float_of_u8_def by (simp del: of_nat_unat)
  have "\<bar>of_int ?n - exact_sum r g b\<bar> \<le> 1 / 2 + 1024 * ulp53"
    using round_half_even_err [of "weighted_sum r g b"] weighted_sum_err(1) [of r g b]
    by linarith
  then have "\<bar>of_int ?n - exact_sum r g b\<bar> < 5001 / 10000"
    using ulp53_bounds by linarith
  then have "\<bar>(of_int (10000 * ?n - ?m) :: rat) / 10000\<bar> < 5001 / 10000"
    unfolding ex by (simp add: field_simps)
  then have "\<bar>(of_int (10000 * ?n - ?m) :: rat)\<bar> < 5001"
    by (simp add: abs_divide)
  then have "\<bar>10000 * ?n - ?m\<bar> < 5001"
    by (metis of_int_abs of_int_less_iff of_int_numeral)
  then have "\<bar>10000 * ?n - ?m\<bar> \<le> 5000" by simp
  then have "\<bar>(of_int (10000 * ?n - ?m) :: rat)\<bar> \<le> 5000"
    by (metis of_int_abs of_int_le_iff of_int_numeral)
  then have "\<bar>(of_int (10000 * ?n - ?m) :: rat) / 10000\<bar> \<le> 1 / 2"
    by (simp add: abs_divide)
  then have "\<bar>of_int ?n - exact_sum r g b\<bar> \<le> 1 / 2"
    unfolding ex by (simp add: field_simps)
  then show ?thesis by (simp only: luminance_uint)
qed

subsection \<open>What the converters compute\<close>

lemma andthen_Inr: "m s = (Inr x, s') \<Longrightarrow> andthen m f s = f x s'"
  by (simp add: andthen_def)

lemma andthen_Inl: "m s = (Inl e, s') \<Longrightarrow> andthen m f s = (Inl e, s')"
  by (simp add: andthen_def)

lemma load_image_holds: "holds_image s a img \<Longrightarrow> load_image a s = (Inr img, s)"
  by (simp add: load_image_def holds_image_def)

lemma zip_map_same: "zip (map f xs) (map g xs) = map (\<lambda>x. (f x, g x)) xs"
  by (induction xs) simp_all

lemma numpy_expression:
  assumes "channels img = 3"
  shows "\<exists>red green blue. channel img 0 = Inr red \<and> channel img 1 = Inr green \<and> channel img 2 = Inr blue \<and>
     np_round_array (add_arrays (add_arrays (scalar_mul w_red red) (scalar_mul w_green green))
                            (scalar_mul w_blue blue)) = weighted_plane img"
  using assms
  by (simp add: channel_def np_round_array_def add_arrays_def scalar_mul_def weighted_plane_def
      zip_map_same weighted_sum_def o_def)

lemma astype_weighted_plane: "astype_uint8_array (weighted_plane img) = grayscale img"
  by (simp add: astype_uint8_array_def weighted_plane_def grayscale_def pixel_luminance_def
      luminance_def o_def)

lemma convert_numpy_result:
  assumes "holds_image s a img" "channels img = 3"
  shows "convert_numpy a s =
           (Inr (Suc (length (objs s))),
            s\<lparr>objs := objs s @ [Plane (weighted_plane img), Gray (grayscale img)]\<rparr>)"
proof -
  from numpy_expression [OF assms(2)] obtain red green blue where
    ch: "channel img 0 = Inr red" "channel img 1 = Inr green" "channel img 2 = Inr blue"
    and bw: "np_round_array (add_arrays (add_arrays (scalar_mul w_red red) (scalar_mul w_green green))
                            (scalar_mul w_blue blue)) = weighted_plane img"
    by blast
  from ch(2) have ch1: "channel img (Suc 0) = Inr green" by simp
  show ?thesis
    unfolding convert_numpy_def
    by (simp add: andthen_def load_image_holds [OF assms(1)] lift_def ch ch1 bw Let_def alloc_def
        astype_weighted_plane)
qed


lemma for_each_upt:
  assumes step: "\<And>k. i \<le> k \<Longrightarrow> k < n \<Longrightarrow> body k (S k) = (Inr (), S (Suc k))"
  shows "i \<le> n \<Longrightarrow> for_each [i..<n] body (S i) = (Inr (), S n)"
  using step
proof (induction "n - i" arbitrary: i)
  case 0
  then show ?case by simp
next
  case (Suc d)
  then have lt: "i < n" by simp
  have "for_each [Suc i..<n] body (S (Suc i)) = (Inr (), S n)"
    using Suc.hyps(1) [of "Suc i"] Suc.hyps(2) Suc.prems lt by simp
  then show ?case
    using Suc.prems(2) [of i] lt by (simp add: upt_conv_Cons)
qed

lemma pixel_index: "y < h \<Longrightarrow> x < w \<Longrightarrow> y * w + x < h * (w::nat)"
proof -
  assume a: "y < h" "x < w"
  have "y * w + x < y * w + w" using a by simp
  also have "\<dots> = Suc y * w" by simp
  also have "\<dots> \<le> h * w" using a by (intro mult_le_mono1) simp
  finally show ?thesis .
qed

lemma partial_gray_step:
  assumes "k < length old"
  shows "(map f [0..<k] @ drop k old)[k := f k] = map f [0..<Suc k] @ drop (Suc k) old"
proof -
  have "drop k old = old ! k # drop (Suc k) old"
    using assms by (simp add: Cons_nth_drop_Suc)
  then show ?thesis by (simp add: list_update_append)
qed

lemma loop_body_step:
  assumes img: "holds_image s a img" and ch: "channels img = 3"
    and old: "length old = height img * width img"
    and y: "y < height img" and x: "x < width img"
  shows "loop_body a (length (objs s)) y x
           (s\<lparr>objs := objs s @ [Gray (partial_gray img old (y * width img + x))]\<rparr>)
         = (Inr (), s\<lparr>objs := objs s @ [Gray (partial_gray img old (Suc (y * width img + x)))]\<rparr>)"
proof -
  let ?k = "y * width img + x"
  let ?s = "s\<lparr>objs := objs s @ [Gray (partial_gray img old ?k)]\<rparr>"
  have k: "?k < length old" using pixel_index [OF y x] old by simp
  have h: "holds_image ?s a img"
    using img by (simp add: holds_image_def nth_append)
  have px: "pixel img y x = Inr (samples img ! (?k * 3), samples img ! (?k * 3 + 1), samples img ! (?k * 3 + 2))"
    using y x ch by (simp add: pixel_def Let_def)
  have upd: "(elems (partial_gray img old ?k))[?k := pixel_luminance img ?k]
             = elems (partial_gray img old (Suc ?k))"
    using partial_gray_step [OF k] by (simp add: partial_gray_def)
  show ?thesis
    unfolding loop_body_def
    apply (simp add: andthen_def load_image_holds [OF h] lift_def px store_item_def)
    using y x upd
    apply (simp add: partial_gray_def pixel_luminance_def luminance_def)
    done
qed


lemma inner_loop:
  assumes img: "holds_image s a img" and ch: "channels img = 3"
    and old: "length old = height img * width img"
    and y: "y < height img"
  shows "for_each [0..<width img] (\<lambda>x. loop_body a (length (objs s)) y x)
           (s\<lparr>objs := objs s @ [Gray (partial_gray img old (y * width img))]\<rparr>)
         = (Inr (), s\<lparr>objs := objs s @ [Gray (partial_gray img old (Suc y * width img))]\<rparr>)"
proof -
  let ?S = "\<lambda>x. s\<lparr>objs := objs s @ [Gray (partial_gray img old (y * width img + x))]\<rparr>"
  have "for_each [0..<width img] (\<lambda>x. loop_body a (length (objs s)) y x) (?S 0)
        = (Inr (), ?S (width img))"
  proof (rule for_each_upt)
    fix k assume "k < width img"
    then show "loop_body a (length (objs s)) y k (?S k) = (Inr (), ?S (Suc k))"
      using loop_body_step [OF img ch old y] by simp
  qed simp
  then show ?thesis by (simp add: add.commute)
qed

lemma outer_loop:
  assumes img: "holds_image s a img" and ch: "channels img = 3"
    and old: "length old = height img * width img"
  shows "for_each [0..<height img]
           (\<lambda>y. for_each [0..<width img] (\<lambda>x. loop_body a (length (objs s)) y x))
           (s\<lparr>objs := objs s @ [Gray (partial_gray img old 0)]\<rparr>)
         = (Inr (), s\<lparr>objs := objs s @ [Gray (partial_gray img old (height img * width img))]\<rparr>)"
proof -
  let ?S = "\<lambda>y. s\<lparr>objs := objs s @ [Gray (partial_gray img old (y * width img))]\<rparr>"
  have "for_each [0..<height img]
           (\<lambda>y. for_each [0..<width img] (\<lambda>x. loop_body a (length (objs s)) y x)) (?S 0)
        = (Inr (), ?S (height img))"
  proof (rule for_each_upt)
    fix k assume "k < height img"
    then show "for_each [0..<width img] (\<lambda>x. loop_body a (length (objs s)) k x) (?S k)
               = (Inr (), ?S (Suc k))"
      using inner_loop [OF img ch old] by simp
  qed simp
  then show ?thesis by simp
qed

lemma partial_gray_0: "length old = height img * width img \<Longrightarrow>
  partial_gray img old 0 = \<lparr>rows = height img, cols = width img, elems = old\<rparr>"
  by (simp add: partial_gray_def)

lemma partial_gray_all: "length old = height img * width img \<Longrightarrow>
  partial_gray img old (height img * width img) = grayscale img"
  by (simp add: partial_gray_def grayscale_def pixel_luminance_def)

lemma convert_numba_loop_result:
  assumes img: "holds_image s a img" and ch: "channels img = 3"
  shows "convert_numba_loop a s =
           (Inr (Suc (length (objs s))),
            s\<lparr>objs := objs s @ [Gray (grayscale img), Gray (grayscale img)]\<rparr>)"
proof -
  let ?old = "map (junk s) [0..<height img * width img]"
  have old: "length ?old = height img * width img" by simp
  have e: "np_empty (height img) (width img) s
           = (Inr (length (objs s)), s\<lparr>objs := objs s @ [Gray (partial_gray img ?old 0)]\<rparr>)"
    by (simp add: np_empty_def alloc_def partial_gray_0)
  have lg: "load_gray (length (objs s)) (s\<lparr>objs := objs s @ [Gray (grayscale img)]\<rparr>)
            = (Inr (grayscale img), s\<lparr>objs := objs s @ [Gray (grayscale img)]\<rparr>)"
    by (simp add: load_gray_def)
  show ?thesis
    unfolding convert_numba_loop_def
    by (simp add: andthen_def load_image_holds [OF img] e outer_loop [OF img ch old]
        partial_gray_all [OF old] lg alloc_def)
qed


lemma frame_refl: "frame (objs s) s"
  by (simp add: frame_def)

lemma frame_length: "frame old s \<Longrightarrow> length old \<le> length (objs s)"
  by (metis frame_def length_take min.cobounded1)

lemma frame_nth: "frame old s \<Longrightarrow> a < length old \<Longrightarrow> objs s ! a = old ! a"
  by (metis frame_def nth_take)

lemma for_each_invariant:
  assumes "\<And>k s. P s \<Longrightarrow> P (snd (body k s))"
  shows "P s \<Longrightarrow> P (snd (for_each ks body s))"
proof (induction ks arbitrary: s)
  case Nil
  then show ?case by simp
next
  case (Cons k ks)
  have "P (snd (body k s))" using assms Cons.prems by simp
  then show ?case
    using Cons.IH [of "snd (body k s)"]
    by (cases "body k s") (auto split: sum.splits)
qed

lemma alloc_frame: "frame old s \<Longrightarrow> frame old (snd (alloc v s))"
  using frame_length [of old s] by (simp add: alloc_def frame_def)

lemma load_image_state: "snd (load_image a s) = s"
  by (simp add: load_image_def split: obj.splits)

lemma load_gray_state: "snd (load_gray a s) = s"
  by (simp add: load_gray_def split: obj.splits)

lemma store_item_frame:
  "frame old s \<Longrightarrow> length old \<le> b \<Longrightarrow> frame old (snd (store_item b y x v s))"
  by (simp add: store_item_def frame_def split: obj.splits)

lemma loop_body_frame:
  "frame old s \<Longrightarrow> length old \<le> b \<Longrightarrow> frame old (snd (loop_body a b y x s))"
  unfolding loop_body_def andthen_def lift_def
  by (cases "load_image a s")
     (use load_image_state [of a s] in \<open>auto split: sum.splits prod.splits simp: store_item_frame\<close>)

lemma convert_numpy_frame: "frame (objs s) (snd (convert_numpy a s))"
proof -
  have "frame (objs s) (snd (alloc w (snd (alloc v s))))" for v w
    by (intro alloc_frame frame_refl)
  then show ?thesis
    unfolding convert_numpy_def andthen_def lift_def Let_def
    using load_image_state [of a s]
    by (cases "load_image a s") (auto split: sum.splits prod.splits simp: frame_refl alloc_def)
qed


lemma convert_numba_frame: "frame (objs s) (snd (convert_numba a s))"
proof -
  have "frame (objs s) (snd (alloc w (snd (alloc v s))))" for v w
    by (intro alloc_frame frame_refl)
  then show ?thesis
    unfolding convert_numba_def andthen_def lift_def Let_def
    using load_image_state [of a s]
    by (cases "load_image a s") (auto split: sum.splits prod.splits simp: frame_refl alloc_def)
qed

lemma loops_frame:
  assumes "frame old s" "length old \<le> b"
  shows "frame old (snd (for_each ys (\<lambda>y. for_each xs (\<lambda>x. loop_body a b y x)) s))"
  using assms(1)
proof (rule for_each_invariant [where P = "frame old", rotated])
  fix y and t :: "'a memory_scheme"
  assume "frame old t"
  then show "frame old (snd (for_each xs (\<lambda>x. loop_body a b y x) t))"
    by (rule for_each_invariant [where P = "frame old", rotated])
       (simp add: loop_body_frame assms(2))
qed

lemma convert_numba_loop_frame: "frame (objs s) (snd (convert_numba_loop a s))"
proof (cases "load_image a s")
  case (Pair r s0)
  then have s0: "s0 = s" using load_image_state [of a s] by simp
  show ?thesis
  proof (cases r)
    case (Inl e)
    then show ?thesis
      using Pair s0 by (simp add: convert_numba_loop_def andthen_def frame_refl)
  next
    case (Inr img)
    let ?b = "length (objs s)"
    define s1 where "s1 = s\<lparr>objs := objs s @
      [Gray \<lparr>rows = height img, cols = width img,
             elems = map (junk s) [0..<height img * width img]\<rparr>]\<rparr>"
    let ?loops = "for_each [0..<height img]
                    (\<lambda>y. for_each [0..<width img] (\<lambda>x. loop_body a ?b y x))"
    let ?rest = "\<lambda>u::unit. andthen (load_gray ?b) (\<lambda>g. alloc (Gray g))"
    have e: "np_empty (height img) (width img) s = (Inr ?b, s1)"
      by (simp add: np_empty_def alloc_def s1_def)
    have unfold: "convert_numba_loop a s = andthen ?loops ?rest s1"
      using Pair s0 Inr e by (simp add: convert_numba_loop_def andthen_def)
    have f1: "frame (objs s) s1"
      by (simp add: s1_def frame_def)
    have f2: "frame (objs s) (snd (?loops s1))"
      using f1 by (rule loops_frame) simp
    obtain r2 s2 where l: "?loops s1 = (r2, s2)" by (cases "?loops s1")
    have f2': "frame (objs s) s2" using f2 l by simp
    have f3: "frame (objs s) (snd (?rest () s2))"
      using f2' load_gray_state [of ?b s2]
      by (cases "load_gray ?b s2") (auto simp: andthen_def alloc_frame split: sum.splits)
    show ?thesis
      unfolding unfold using l f2' f3
      by (cases r2) (simp_all add: andthen_def)
  qed
qed

lemma convert_numba_result:
  assumes "holds_image s a img" "channels img = 3"
  shows "convert_numba a s =
           (Inr (Suc (length (objs s))),
            s\<lparr>objs := objs s @ [Plane (weighted_plane img), Gray (grayscale img)]\<rparr>)"
proof -
  from numpy_expression [OF assms(2)] obtain red green blue where
    ch: "channel img 0 = Inr red" "channel img 1 = Inr green" "channel img 2 = Inr blue"
    and bw: "np_round_array (add_arrays (add_arrays (scalar_mul w_red red) (scalar_mul w_green green))
                            (scalar_mul w_blue blue)) = weighted_plane img"
    by blast
  from ch(2) have ch1: "channel img (Suc 0) = Inr green" by simp
  show ?thesis
    unfolding convert_numba_def
    by (simp add: andthen_def load_image_holds [OF assms(1)] lift_def ch ch1 bw Let_def alloc_def
        astype_weighted_plane)
qed

lemma result_grid_numpy:
  assumes "holds_image s a img" "channels img = 3"
  shows "result_grid (convert_numpy a s) = Inr (grayscale img)"
  by (simp add: convert_numpy_result [OF assms] result_grid_def load_gray_def nth_append)

lemma result_grid_numba:
  assumes "holds_image s a img" "channels img = 3"
  shows "result_grid (convert_numba a s) = Inr (grayscale img)"
  by (simp add: convert_numba_result [OF assms] result_grid_def load_gray_def nth_append)

lemma result_grid_numba_loop:
  assumes "holds_image s a img" "channels img = 3"
  shows "result_grid (convert_numba_loop a s) = Inr (grayscale img)"
  by (simp add: convert_numba_loop_result [OF assms] result_grid_def load_gray_def nth_append)

lemma holds_image_frame: "holds_image s a img \<Longrightarrow> frame (objs s) t \<Longrightarrow> holds_image t a img"
  using frame_length [of "objs s" t] frame_nth [of "objs s" t a]
  by (simp add: holds_image_def)

lemma grayscale_shape: "has_shape_of img (Inr (grayscale img))"
  by (simp add: has_shape_of_def grayscale_def)

lemma grayscale_pixel:
  assumes "y < height img" "x < width img"
  shows "pixel_is_rounded_sum img y x (Inr (grayscale img))"
proof -
  have k: "y * width img + x < height img * width img"
    using assms by (rule pixel_index)
  let ?p = "(y * width img + x) * 3"
  let ?r = "samples img ! ?p" and ?g = "samples img ! (?p + 1)"
    and ?b = "samples img ! (?p + 2)"
  have v: "elems (grayscale img) ! (y * cols (grayscale img) + x) = luminance ?r ?g ?b"
    using k by (simp add: grayscale_def pixel_luminance_def)
  have "elems (grayscale img) ! (y * cols (grayscale img) + x)
          = astype_uint8 (np_round (weighted_sum ?r ?g ?b))
        \<and> uint (elems (grayscale img) ! (y * cols (grayscale img) + x))
          = round_half_even (weighted_sum ?r ?g ?b)
        \<and> \<bar>of_int (uint (elems (grayscale img) ! (y * cols (grayscale img) + x)))
             - exact_sum ?r ?g ?b\<bar> \<le> 1 / 2"
    using luminance_uint [of ?r ?g ?b] luminance_nearest [of ?r ?g ?b]
    by (simp only: v luminance_def)
  then show ?thesis
    unfolding pixel_is_rounded_sum_def Let_def
    by (intro exI [of _ "grayscale img"] conjI refl) (elim conjE, assumption)+
qed

lemma holds_two_pixels: "holds_image (memory_of [Image two_pixels]) 0 two_pixels"
  by (simp add: holds_image_def memory_of_def)

lemma valid_two_pixels: "valid_image two_pixels"
  by (simp add: valid_image_def two_pixels_def)

lemma float_of_u8_128: "float_of_u8 128 = 128"
  by (simp add: float_of_u8_def)

lemma weighted_sum_128: "weighted_sum 128 128 128 = 9006298534815517 / 2 ^ 46"
  by (simp add: weighted_sum_def fmul_def fadd_def float_of_u8_128 w_red_val w_green_val
      w_blue_val fl_eval)

lemma luminance_128: "luminance 128 128 128 = 128"
  by (simp add: luminance_def weighted_sum_128 np_round_def astype_uint8_def
      round_half_even_def Let_def floor_rat_numeral)

lemma grayscale_mid_gray:
  "grayscale mid_gray = \<lparr>rows = 4, cols = 4, elems = replicate 16 128\<rparr>"
proof -
  have "pixel_luminance mid_gray p = 128" if "p < 16" for p
    using that by (simp add: pixel_luminance_def mid_gray_def luminance_128)
  then have "map (pixel_luminance mid_gray) [0..<16] = replicate 16 128"
    by (intro nth_equalityI) simp_all
  then show ?thesis by (simp add: grayscale_def mid_gray_def)
qed


lemma for_each_nothing: "for_each ys (\<lambda>y. for_each [] (body y)) t = (Inr (), t)"
  by (induction ys) simp_all

lemma grayscale_empty:
  "height img = 0 \<or> width img = 0 \<Longrightarrow>
   grayscale img = \<lparr>rows = height img, cols = width img, elems = []\<rparr>"
  by (auto simp: grayscale_def)

lemma holds_no_columns: "holds_image (memory_of [Image no_columns]) 0 no_columns"
  by (simp add: holds_image_def memory_of_def)

lemma valid_no_columns: "valid_image no_columns"
  by (simp add: valid_image_def no_columns_def)

lemma holds_mid_gray: "holds_image (memory_of [Image mid_gray]) 0 mid_gray"
  by (simp add: holds_image_def memory_of_def)

text \<open>The grid for the two-pixel image, evaluated: pure red gives 76.\<close>

lemma float_of_u8_numeral: "float_of_u8 255 = 255" "float_of_u8 0 = 0" "float_of_u8 10 = 10"
  "float_of_u8 200 = 200" "float_of_u8 30 = 30"
  by (simp_all add: float_of_u8_def)

lemma luminance_red: "luminance 255 0 0 = 76"
  by (simp add: luminance_def weighted_sum_def fmul_def fadd_def float_of_u8_numeral w_red_val
      w_green_val w_blue_val fl_eval np_round_def astype_uint8_def)

lemma luminance_mixed: "luminance 10 200 30 = 124"
  by (simp add: luminance_def weighted_sum_def fmul_def fadd_def float_of_u8_numeral w_red_val
      w_green_val w_blue_val fl_eval np_round_def astype_uint8_def)

lemma grayscale_two_pixels:
  "grayscale two_pixels = \<lparr>rows = 1, cols = 2, elems = [76, 124]\<rparr>"
  by (simp add: grayscale_def two_pixels_def pixel_luminance_def upt_rec luminance_red
      luminance_mixed)

section \<open>The claims about the converters\<close>

text \<open>
  Claim C1.  For every valid 3-channel 8-bit input image, \<^verbatim>\<open>convert_numpy\<close>,
  \<^verbatim>\<open>convert_numba\<close> and \<^verbatim>\<open>convert_numba_loop\<close> all return, and the three grids they
  return are equal, shape and values.
\<close>

theorem converters_agree:
  assumes "holds_image s a img" and "valid_image img"
  shows "\<exists>out. result_grid (convert_numpy a s) = Inr out
             \<and> result_grid (convert_numba a s) = Inr out
             \<and> result_grid (convert_numba_loop a s) = Inr out"
proof -
  have ch: "channels img = 3" using assms(2) by (simp add: valid_image_def)
  show ?thesis
    using result_grid_numpy [OF assms(1) ch] result_grid_numba [OF assms(1) ch]
      result_grid_numba_loop [OF assms(1) ch]
    by simp
qed

theorem converters_agree_witness:
  "holds_image (memory_of [Image two_pixels]) 0 two_pixels \<and> valid_image two_pixels \<and>
   (\<exists>out. result_grid (convert_numpy 0 (memory_of [Image two_pixels])) = Inr out
         \<and> result_grid (convert_numba 0 (memory_of [Image two_pixels])) = Inr out
         \<and> result_grid (convert_numba_loop 0 (memory_of [Image two_pixels])) = Inr out
         \<and> out = \<lparr>rows = 1, cols = 2, elems = [76, 124]\<rparr>)"
proof -
  have ch: "channels two_pixels = 3" by (simp add: two_pixels_def)
  show ?thesis
    using converters_agree [OF holds_two_pixels valid_two_pixels]
      result_grid_numpy [OF holds_two_pixels ch] holds_two_pixels valid_two_pixels
    by (auto simp: grayscale_two_pixels)
qed

text \<open>
  Claim C2.  For every valid image and every pixel position \<open>(y, x)\<close>, the value each
  converter returns at that position is the binary64 weighted sum
  \<^verbatim>\<open>0.2989 * R + 0.5870 * G + 0.1140 * B\<close> of that pixel, rounded to the nearest integer
  and cast to \<^verbatim>\<open>uint8\<close>; the cast changes nothing, because the rounded sum already lies
  in 0..255: the value, read as an integer, is the rounded sum itself, with no clamping
  (and no wrap-around) anywhere.  The rounding errors of the binary64 operations do not
  show: the value is also within one half of the sum taken with the exact decimal
  weights, so it is a nearest integer to that sum.
\<close>

theorem converter_pixel_value:
  assumes "holds_image s a img" and "valid_image img"
    and "y < height img" and "x < width img"
  shows "pixel_is_rounded_sum img y x (result_grid (convert_numpy a s))
       \<and> pixel_is_rounded_sum img y x (result_grid (convert_numba a s))
       \<and> pixel_is_rounded_sum img y x (result_grid (convert_numba_loop a s))"
proof -
  have ch: "channels img = 3" using assms(2) by (simp add: valid_image_def)
  show ?thesis
    using result_grid_numpy [OF assms(1) ch] result_grid_numba [OF assms(1) ch]
      result_grid_numba_loop [OF assms(1) ch] grayscale_pixel [OF assms(3,4)]
    by simp
qed

theorem converter_pixel_value_witness:
  "holds_image (memory_of [Image two_pixels]) 0 two_pixels \<and> valid_image two_pixels
   \<and> 0 < height two_pixels \<and> 1 < width two_pixels
   \<and> pixel_is_rounded_sum two_pixels 0 1 (result_grid (convert_numpy 0 (memory_of [Image two_pixels])))
   \<and> pixel_is_rounded_sum two_pixels 0 1 (result_grid (convert_numba 0 (memory_of [Image two_pixels])))
   \<and> pixel_is_rounded_sum two_pixels 0 1 (result_grid (convert_numba_loop 0 (memory_of [Image two_pixels])))"
proof -
  have y: "0 < height two_pixels" and x: "1 < width two_pixels"
    by (simp_all add: two_pixels_def)
  show ?thesis
    using converter_pixel_value [OF holds_two_pixels valid_two_pixels y x]
      holds_two_pixels valid_two_pixels y x by simp
qed

text \<open>
  Claim C3.  For every valid image of shape \<open>(height, width, 3)\<close>, each converter returns
  a rank-2 grid with \<open>height\<close> rows and \<open>width\<close> columns, holding \<open>height * width\<close>
  values: one channel.
\<close>

theorem converter_shape:
  assumes "holds_image s a img" and "valid_image img"
  shows "has_shape_of img (result_grid (convert_numpy a s))
       \<and> has_shape_of img (result_grid (convert_numba a s))
       \<and> has_shape_of img (result_grid (convert_numba_loop a s))"
proof -
  have ch: "channels img = 3" using assms(2) by (simp add: valid_image_def)
  show ?thesis
    using result_grid_numpy [OF assms(1) ch] result_grid_numba [OF assms(1) ch]
      result_grid_numba_loop [OF assms(1) ch] grayscale_shape [of img]
    by simp
qed

theorem converter_shape_witness:
  "holds_image (memory_of [Image two_pixels]) 0 two_pixels \<and> valid_image two_pixels
   \<and> has_shape_of two_pixels (result_grid (convert_numpy 0 (memory_of [Image two_pixels])))
   \<and> has_shape_of two_pixels (result_grid (convert_numba 0 (memory_of [Image two_pixels])))
   \<and> has_shape_of two_pixels (result_grid (convert_numba_loop 0 (memory_of [Image two_pixels])))"
  using converter_shape [OF holds_two_pixels valid_two_pixels]
    holds_two_pixels valid_two_pixels by simp

text \<open>
  Claim C7.  No converter modifies its input: whatever image the store holds at the
  address passed in, valid or not, the store a converter call leaves behind (also when
  the call raises) holds the same image at that address.
\<close>

theorem converters_keep_input:
  assumes "holds_image s a img"
  shows "holds_image (snd (convert_numpy a s)) a img
       \<and> holds_image (snd (convert_numba a s)) a img
       \<and> holds_image (snd (convert_numba_loop a s)) a img"
  using assms convert_numpy_frame convert_numba_frame convert_numba_loop_frame
  by (blast intro: holds_image_frame)

theorem converters_keep_input_witness:
  "holds_image (memory_of [Image two_pixels]) 0 two_pixels
   \<and> holds_image (snd (convert_numpy 0 (memory_of [Image two_pixels]))) 0 two_pixels
   \<and> holds_image (snd (convert_numba 0 (memory_of [Image two_pixels]))) 0 two_pixels
   \<and> holds_image (snd (convert_numba_loop 0 (memory_of [Image two_pixels]))) 0 two_pixels"
  using converters_keep_input [OF holds_two_pixels] holds_two_pixels by simp

text \<open>
  Claim C8, as stated, gives as the reason for the result that
  \<^verbatim>\<open>0.2989*128 + 0.5870*128 + 0.1140*128\<close> is exactly 128.0.  It is not: the weights add up
  to 0.9999, so neither the binary64 sum nor the exact decimal sum is 128.
\<close>

theorem mid_gray_sum_not_exact:
  "weighted_sum 128 128 128 \<noteq> 128 \<and> exact_sum 128 128 128 \<noteq> 128"
  by (simp add: weighted_sum_128 exact_sum_def float_of_u8_128)

text \<open>
  Claim C8, amended.  For a 4 by 4 by 3 image whose every sample is 128, all three
  converters return the 4 by 4 grid in which every value is 128, because the weighted
  sum of a mid-gray pixel, \<open>9006298534815517 / 2 ^ 46\<close> in binary64 (about 127.9872, and
  below 128), rounds to 128.
\<close>

theorem mid_gray_grid:
  assumes "holds_image s a mid_gray"
  shows "result_grid (convert_numpy a s) = Inr \<lparr>rows = 4, cols = 4, elems = replicate 16 128\<rparr>
       \<and> result_grid (convert_numba a s) = Inr \<lparr>rows = 4, cols = 4, elems = replicate 16 128\<rparr>
       \<and> result_grid (convert_numba_loop a s)
           = Inr \<lparr>rows = 4, cols = 4, elems = replicate 16 128\<rparr>
       \<and> weighted_sum 128 128 128 = 9006298534815517 / 2 ^ 46
       \<and> weighted_sum 128 128 128 < 128
       \<and> np_round (weighted_sum 128 128 128) = 128"
proof -
  have ch: "channels mid_gray = 3" by (simp add: mid_gray_def)
  have "np_round (weighted_sum 128 128 128) = 128"
    by (simp add: weighted_sum_128 np_round_def round_half_even_def Let_def floor_rat_numeral)
  then show ?thesis
    using result_grid_numpy [OF assms ch] result_grid_numba [OF assms ch]
      result_grid_numba_loop [OF assms ch]
    by (simp add: grayscale_mid_gray weighted_sum_128)
qed

theorem mid_gray_grid_witness:
  "holds_image (memory_of [Image mid_gray]) 0 mid_gray
   \<and> result_grid (convert_numpy 0 (memory_of [Image mid_gray]))
       = Inr \<lparr>rows = 4, cols = 4, elems = replicate 16 128\<rparr>
   \<and> result_grid (convert_numba 0 (memory_of [Image mid_gray]))
       = Inr \<lparr>rows = 4, cols = 4, elems = replicate 16 128\<rparr>
   \<and> result_grid (convert_numba_loop 0 (memory_of [Image mid_gray]))
       = Inr \<lparr>rows = 4, cols = 4, elems = replicate 16 128\<rparr>"
  using mid_gray_grid [OF holds_mid_gray] holds_mid_gray by simp

text \<open>
  Claim C10.  For every valid image with no rows or no columns, each converter returns,
  without failing, the empty grid of the image's own height and width.  In
  \<^verbatim>\<open>convert_numba_loop\<close> the nested loops leave every state as it is, whatever their
  body: the body never runs; and the preallocated output, still at its address after the
  call, is that same empty grid.
\<close>

theorem empty_image_converted:
  fixes s :: "'z memory_scheme"
  assumes "holds_image s a img" and "valid_image img"
    and "height img = 0 \<or> width img = 0"
  shows "result_grid (convert_numpy a s)
           = Inr \<lparr>rows = height img, cols = width img, elems = []\<rparr>
       \<and> result_grid (convert_numba a s)
           = Inr \<lparr>rows = height img, cols = width img, elems = []\<rparr>
       \<and> result_grid (convert_numba_loop a s)
           = Inr \<lparr>rows = height img, cols = width img, elems = []\<rparr>
       \<and> (\<forall>body (t :: 'z memory_scheme).
             for_each [0..<height img] (\<lambda>y. for_each [0..<width img] (body y)) t = (Inr (), t))
       \<and> fst (load_gray (length (objs s)) (snd (convert_numba_loop a s)))
           = Inr \<lparr>rows = height img, cols = width img, elems = []\<rparr>"
proof -
  have ch: "channels img = 3" using assms(2) by (simp add: valid_image_def)
  have loops: "for_each [0..<height img] (\<lambda>y. for_each [0..<width img] (body y)) t
               = (Inr (), t)" for body and t :: "'z memory_scheme"
    using assms(3) by (auto simp: for_each_nothing)
  have pre: "fst (load_gray (length (objs s)) (snd (convert_numba_loop a s)))
             = Inr (grayscale img)"
    by (simp add: convert_numba_loop_result [OF assms(1) ch] load_gray_def nth_append)
  show ?thesis
    using result_grid_numpy [OF assms(1) ch] result_grid_numba [OF assms(1) ch]
      result_grid_numba_loop [OF assms(1) ch] loops pre
    by (simp add: grayscale_empty [OF assms(3)])
qed

theorem empty_image_converted_witness:
  "holds_image (memory_of [Image no_columns]) 0 no_columns \<and> valid_image no_columns
   \<and> (height no_columns = 0 \<or> width no_columns = 0)
   \<and> result_grid (convert_numpy 0 (memory_of [Image no_columns]))
       = Inr \<lparr>rows = 2, cols = 0, elems = []\<rparr>
   \<and> result_grid (convert_numba 0 (memory_of [Image no_columns]))
       = Inr \<lparr>rows = 2, cols = 0, elems = []\<rparr>
   \<and> result_grid (convert_numba_loop 0 (memory_of [Image no_columns]))
       = Inr \<lparr>rows = 2, cols = 0, elems = []\<rparr>"
proof -
  have h: "height no_columns = 2" and w: "width no_columns = 0"
    by (simp_all add: no_columns_def)
  have e: "height no_columns = 0 \<or> width no_columns = 0" using w by simp
  show ?thesis
    using empty_image_converted [OF holds_no_columns valid_no_columns e]
      holds_no_columns valid_no_columns
    by (simp add: h w)
qed

section \<open>The claims about the profiling harness\<close>

lemma start_clock: "clock (snd (tracemalloc_start s)) = clock s"
  "clock_reads (snd (tracemalloc_start s)) = clock_reads s"
  "tracing (snd (tracemalloc_start s))"
  by (simp_all add: tracemalloc_start_def)

lemma at_call_tracing: "tracing (at_call s)"
  by (simp add: at_call_def time_time_def tracemalloc_start_def)

lemma profile_function_returns:
  assumes "func args (at_call s) = (Inr out, s2)"
  shows "profile_function func args s =
           (Inr (out, fsub (clock s2 (clock_reads s2)) (clock s (clock_reads s)),
                 if tracing s2 then traced_peak s2 else 0),
            snd (tracemalloc_stop (snd (time_time s2))))"
  using assms
  by (simp add: profile_function_def andthen_def at_call_def time_time_def tracemalloc_start_def
      tracemalloc_get_traced_memory_def tracemalloc_stop_def ret_def Let_def)

lemma profile_function_raises:
  assumes "func args (at_call s) = (Inl e, s2)"
  shows "profile_function func args s = (Inl e, s2)"
  using assms
  by (simp add: profile_function_def andthen_def at_call_def time_time_def tracemalloc_start_def)

lemma profile_function_calls:
  fixes func :: "'arg \<Rightarrow> ('r, ('arg, 'z) probe_scheme) prog"
  assumes quiet: "\<forall>a t. calls (snd (func a t)) = calls t"
  shows "calls (snd (profile_function (logged func) args s)) = calls s @ [args]"
proof -
  obtain r s2 where l: "logged func args (at_call s) = (r, s2)"
    by (cases "logged func args (at_call s)")
  have c0: "calls (at_call s) = calls s"
    by (simp add: at_call_def time_time_def tracemalloc_start_def)
  have "calls s2 = calls (at_call s) @ [args]"
    using l quiet [rule_format, of args "at_call s\<lparr>calls := calls (at_call s) @ [args]\<rparr>"]
    by (simp add: logged_def)
  then have c2: "calls s2 = calls s @ [args]" using c0 by simp
  show ?thesis
  proof (cases r)
    case (Inl e)
    then show ?thesis using profile_function_raises [of "logged func" args s e s2] l c2 by simp
  next
    case (Inr out)
    then show ?thesis using profile_function_returns [of "logged func" args s out s2] l c2
      by (simp add: tracemalloc_stop_def time_time_def)
  qed
qed

text \<open>
  Claim C4.  \<^verbatim>\<open>profile_function\<close> invokes the callable exactly once, with exactly the
  arguments it was given: for any callable that leaves the invocation log alone, the log
  after the harness call is the log before it plus that one entry, whether the callable
  returns or raises.  When the callable returns, the harness returns a triple: the
  callable's result unchanged, the float64 difference of the clock values taken right
  after and right before the call, and the peak counter of the memory tracer (a natural
  number) as the callable left it.
\<close>

theorem profile_function_contract:
  fixes func :: "'arg \<Rightarrow> ('r, ('arg, 'z) probe_scheme) prog"
  assumes "\<forall>a t. calls (snd (func a t)) = calls t"
  shows "calls (snd (profile_function (logged func) args s)) = calls s @ [args]
       \<and> (\<forall>out s2. logged func args (at_call s) = (Inr out, s2) \<longrightarrow>
             fst (profile_function (logged func) args s)
               = Inr (out, fsub (clock s2 (clock_reads s2)) (clock s (clock_reads s)),
                      if tracing s2 then traced_peak s2 else 0))"
  using profile_function_calls [OF assms] profile_function_returns [of "logged func" args s]
  by simp

theorem profile_function_contract_witness:
  "(\<forall>a t. calls (snd (successor a t)) = calls t)
   \<and> calls (snd (profile_function (logged successor) 5 idle_probe)) = [5]
   \<and> fst (profile_function (logged successor) 5 idle_probe) = Inr (6, 1, 100)"
proof -
  have q: "\<forall>a t. calls (snd (successor a t)) = calls t"
    by (simp add: successor_def)
  have l: "logged successor 5 (at_call idle_probe) =
             (Inr 6, \<lparr>tracing = True, traced_current = 40, traced_peak = 100,
                      clock = (\<lambda>n. of_nat n), clock_reads = 1, calls = [5]\<rparr>)"
    by (simp add: logged_def successor_def at_call_def time_time_def tracemalloc_start_def
        idle_probe_def)
  have f: "fsub 1 0 = 1" by (simp add: fsub_def fl_eval)
  show ?thesis
    using profile_function_contract [OF q, of 5 idle_probe] q l
    by (simp add: idle_probe_def f)
qed

text \<open>
  Claim C5, as stated, has tracing torn down before \<^verbatim>\<open>profile_function\<close> returns also
  when the wrapped callable fails.  The source has no handler around the call: with a
  callable that raises, started with tracing off, the harness ends with that exception
  and tracing is left on.
\<close>

theorem tracing_left_on_after_failure:
  "\<not> tracing idle_process
   \<and> fst (profile_function failing () idle_process) = Inl (OtherError ''boom'')
   \<and> tracing (snd (profile_function failing () idle_process))"
  by (simp add: profile_function_def andthen_def failing_def raise_def idle_process_def
      tracemalloc_start_def time_time_def)

text \<open>
  Claim C5, amended.  Tracing is on when the wrapped callable is invoked.  When the
  callable returns, the harness returns a result and tracing is off in the state it
  leaves.  When the callable raises, the harness ends with the same exception in the very
  state the callable left: it reads no clock and no counter, and does not stop tracing.
\<close>

theorem tracing_scope:
  "tracing (at_call s)
   \<and> (\<forall>out s2. func args (at_call s) = (Inr out, s2) \<longrightarrow>
         (\<exists>res. fst (profile_function func args s) = Inr res)
         \<and> \<not> tracing (snd (profile_function func args s)))
   \<and> (\<forall>e s2. func args (at_call s) = (Inl e, s2) \<longrightarrow>
         profile_function func args s = (Inl e, s2))"
  using profile_function_returns [of func args s] profile_function_raises [of func args s]
  by (simp add: at_call_tracing tracemalloc_stop_def time_time_def)

theorem tracing_scope_witness:
  "tracing (at_call idle_probe)
   \<and> fst (successor 5 (at_call idle_probe)) = Inr 6
   \<and> \<not> tracing (snd (profile_function successor 5 idle_probe))
   \<and> failing () (at_call idle_process) = (Inl (OtherError ''boom''), at_call idle_process)
   \<and> profile_function failing () idle_process
       = (Inl (OtherError ''boom''), at_call idle_process)"
  using tracing_scope [of idle_probe successor 5] tracing_scope [of idle_process failing "()"]
  by (simp add: successor_def failing_def raise_def)

section \<open>The claims about the driver\<close>

lemma objs_onlyD: "objs_only P \<Longrightarrow> P t \<Longrightarrow> P (t\<lparr>objs := xs\<rparr>)"
  by (simp add: objs_only_def)

lemma alloc_keeps: "objs_only P \<Longrightarrow> P s \<Longrightarrow> P (snd (alloc v s))"
  by (simp add: alloc_def objs_onlyD)

lemma store_item_keeps: "objs_only P \<Longrightarrow> P s \<Longrightarrow> P (snd (store_item b y x v s))"
  by (simp add: store_item_def objs_onlyD split: obj.splits)

lemma loop_body_keeps: "objs_only P \<Longrightarrow> P s \<Longrightarrow> P (snd (loop_body a b y x s))"
  unfolding loop_body_def andthen_def lift_def
  by (cases "load_image a s")
     (use load_image_state [of a s] in \<open>auto split: sum.splits prod.splits simp: store_item_keeps\<close>)

lemma vectorised_keeps:
  assumes "objs_only P" "P s"
  shows "P (snd (andthen (alloc v) (\<lambda>bw_image. alloc w) s))"
  using assms by (simp add: andthen_def alloc_def objs_onlyD)

lemma convert_numpy_keeps:
  assumes "objs_only P" "P s"
  shows "P (snd (convert_numpy a s))"
proof (cases "load_image a s")
  case (Pair r s0)
  then have s0: "s0 = s" using load_image_state [of a s] by simp
  show ?thesis
  proof (cases r)
    case (Inl e)
    then show ?thesis using Pair s0 assms(2) by (simp add: convert_numpy_def andthen_def)
  next
    case (Inr img)
    show ?thesis
    proof (cases "channel img 0")
      case (Inl e)
      then show ?thesis
        using Pair s0 Inr assms(2) by (simp add: convert_numpy_def andthen_def lift_def)
    next
      case red: (Inr red)
      show ?thesis
      proof (cases "channel img 1")
        case (Inl e)
        then show ?thesis
          using Pair s0 Inr red assms(2) by (simp add: convert_numpy_def andthen_def lift_def)
      next
        case green: (Inr green)
        show ?thesis
        proof (cases "channel img 2")
          case (Inl e)
          then show ?thesis
            using Pair s0 Inr red green assms(2)
            by (simp add: convert_numpy_def andthen_def lift_def)
        next
          case blue: (Inr blue)
          have "convert_numpy a s =
                  andthen (alloc (Plane (np_round_array
                      (add_arrays (add_arrays (scalar_mul w_red red) (scalar_mul w_green green))
                            (scalar_mul w_blue blue)))))
                    (\<lambda>bw_image. alloc (Gray (astype_uint8_array (np_round_array
                      (add_arrays (add_arrays (scalar_mul w_red red) (scalar_mul w_green green))
                            (scalar_mul w_blue blue)))))) s"
            using Pair s0 Inr red green blue
            by (simp add: convert_numpy_def andthen_def lift_def Let_def)
          then show ?thesis using vectorised_keeps [OF assms] by simp
        qed
      qed
    qed
  qed
qed

lemma convert_numba_eq: "convert_numba a = convert_numpy a"
  by (simp add: convert_numba_def convert_numpy_def)

lemma convert_numba_keeps:
  assumes "objs_only P" "P s"
  shows "P (snd (convert_numba a s))"
  using convert_numpy_keeps [OF assms] by (simp add: convert_numba_eq)

lemma loops_keep:
  assumes "objs_only P" "P s"
  shows "P (snd (for_each ys (\<lambda>y. for_each xs (\<lambda>x. loop_body a b y x)) s))"
  using assms(2)
proof (rule for_each_invariant [where P = P, rotated])
  fix y and t :: "'a memory_scheme"
  assume "P t"
  then show "P (snd (for_each xs (\<lambda>x. loop_body a b y x) t))"
    by (rule for_each_invariant [where P = P, rotated])
       (simp add: loop_body_keeps assms(1))
qed

lemma convert_numba_loop_keeps:
  assumes "objs_only P" "P s"
  shows "P (snd (convert_numba_loop a s))"
proof (cases "load_image a s")
  case (Pair r s0)
  then have s0: "s0 = s" using load_image_state [of a s] by simp
  show ?thesis
  proof (cases r)
    case (Inl e)
    then show ?thesis
      using Pair s0 assms(2) by (simp add: convert_numba_loop_def andthen_def)
  next
    case (Inr img)
    let ?b = "length (objs s)"
    define s1 where "s1 = s\<lparr>objs := objs s @
      [Gray \<lparr>rows = height img, cols = width img,
             elems = map (junk s) [0..<height img * width img]\<rparr>]\<rparr>"
    let ?loops = "for_each [0..<height img]
                    (\<lambda>y. for_each [0..<width img] (\<lambda>x. loop_body a ?b y x))"
    let ?rest = "\<lambda>u::unit. andthen (load_gray ?b) (\<lambda>g. alloc (Gray g))"
    have e: "np_empty (height img) (width img) s = (Inr ?b, s1)"
      by (simp add: np_empty_def alloc_def s1_def)
    have unfold: "convert_numba_loop a s = andthen ?loops ?rest s1"
      using Pair s0 Inr e by (simp add: convert_numba_loop_def andthen_def)
    have f1: "P s1"
      unfolding s1_def using assms by (rule objs_onlyD)
    have f2: "P (snd (?loops s1))"
      using assms(1) f1 by (rule loops_keep)
    obtain r2 s2 where l: "?loops s1 = (r2, s2)" by (cases "?loops s1")
    have f2': "P s2" using f2 l by simp
    have f3: "P (snd (?rest () s2))"
      using f2' load_gray_state [of ?b s2] assms(1)
      by (cases "load_gray ?b s2") (auto simp: andthen_def alloc_keeps split: sum.splits)
    show ?thesis
      unfolding unfold using l f2' f3
      by (cases r2) (simp_all add: andthen_def)
  qed
qed

lemma same_files_objs_only: "objs_only (same_files s)"
  by (simp add: objs_only_def same_files_def)

lemma same_files_refl: "same_files s s"
  by (simp add: same_files_def)

lemma same_files_trans: "same_files s t \<Longrightarrow> same_files t u \<Longrightarrow> same_files s u"
  by (simp add: same_files_def)

lemma leaves_filesD: "leaves_files conv \<Longrightarrow> same_files t (snd (conv a t))"
  by (simp add: leaves_files_def same_files_def)

lemma converters_leave_files:
  "leaves_files convert_numpy" "leaves_files convert_numba" "leaves_files convert_numba_loop"
proof -
  have "same_files t (snd (convert_numpy a t))" for a and t :: "'a machine_scheme"
    by (rule convert_numpy_keeps [where P = "same_files t", OF same_files_objs_only same_files_refl])
  then show "leaves_files (convert_numpy :: addr \<Rightarrow> (addr, 'a machine_scheme) prog)"
    by (simp add: leaves_files_def same_files_def)
  have "same_files t (snd (convert_numba a t))" for a and t :: "'b machine_scheme"
    by (rule convert_numba_keeps [where P = "same_files t", OF same_files_objs_only same_files_refl])
  then show "leaves_files (convert_numba :: addr \<Rightarrow> (addr, 'b machine_scheme) prog)"
    by (simp add: leaves_files_def same_files_def)
  have "same_files t (snd (convert_numba_loop a t))" for a and t :: "'c machine_scheme"
    by (rule convert_numba_loop_keeps [where P = "same_files t", OF same_files_objs_only same_files_refl])
  then show "leaves_files (convert_numba_loop :: addr \<Rightarrow> (addr, 'c machine_scheme) prog)"
    by (simp add: leaves_files_def same_files_def)
qed

lemma at_call_same_files: "same_files s (at_call s)"
  by (simp add: same_files_def at_call_def time_time_def tracemalloc_start_def)

lemma profile_function_same_files:
  assumes "leaves_files conv"
  shows "same_files s (snd (profile_function conv a s))"
proof -
  obtain r s2 where c: "conv a (at_call s) = (r, s2)" by (cases "conv a (at_call s)")
  have "same_files (at_call s) s2" using leaves_filesD [OF assms, of "at_call s" a] c by simp
  then have s2: "same_files s s2" using at_call_same_files same_files_trans by blast
  show ?thesis
  proof (cases r)
    case (Inl e)
    then show ?thesis using profile_function_raises [of conv a s e s2] c s2 by simp
  next
    case (Inr out)
    then show ?thesis using profile_function_returns [of conv a s out s2] c s2
      by (simp add: same_files_def tracemalloc_stop_def time_time_def)
  qed
qed

lemma timed_same_files:
  assumes "leaves_files conv"
  shows "same_files s (snd (timed l conv a s))"
proof -
  obtain r s2 where p: "profile_function conv a s = (r, s2)"
    by (cases "profile_function conv a s")
  have s2: "same_files s s2" using profile_function_same_files [OF assms, of s a] p by simp
  show ?thesis
    using p s2
    by (cases r) (auto simp: timed_def andthen_def print_line_def ret_def same_files_def)
qed

lemma imread_same_files: "same_files s (snd (imread dec e s))"
  by (simp add: imread_def alloc_def same_files_def split: option.splits node.splits sum.splits)

lemma print_line_same_files: "same_files s (snd (print_line l s))"
  by (simp add: print_line_def same_files_def)

lemma assert_array_equal_state: "snd (assert_array_equal a b s) = s"
  using load_gray_state [of a s] load_gray_state [of b s]
  by (cases "load_gray a s"; cases "load_gray b s")
     (auto simp: assert_array_equal_def andthen_def ret_def raise_def split: sum.splits)

lemma assert_array_equal_differ:
  assumes "fst (load_gray a s) = Inr x" "fst (load_gray b s) = Inr y" "x \<noteq> y"
  shows "assert_array_equal a b s = (Inl AssertionError, s)"
  using assms load_gray_state [of a s] load_gray_state [of b s]
  by (cases "load_gray a s"; cases "load_gray b s")
     (auto simp: assert_array_equal_def andthen_def raise_def)

lemma assert_array_equal_same:
  assumes "fst (load_gray a s) = Inr x" "fst (load_gray b s) = Inr x"
  shows "assert_array_equal a b s = (Inr (), s)"
  using assms load_gray_state [of a s] load_gray_state [of b s]
  by (cases "load_gray a s"; cases "load_gray b s")
     (auto simp: assert_array_equal_def andthen_def ret_def)

lemma andthen_InrE:
  assumes "andthen m f s = (Inr y, s')"
  obtains x s1 where "m s = (Inr x, s1)" "f x s1 = (Inr y, s')"
  using assms by (cases "m s") (auto simp: andthen_def split: sum.splits)

lemma timed_returns:
  assumes "conv a (at_call s) = (Inr r, t)"
  shows "fst (timed l conv a s) = Inr r"
    and "objs (snd (timed l conv a s)) = objs t"
  using profile_function_returns [of conv a s r t] assms
  by (simp_all add: timed_def andthen_def print_line_def ret_def tracemalloc_stop_def
      time_time_def)

lemma holds_image_at_call: "holds_image s a img \<Longrightarrow> holds_image (at_call s) a img"
  by (simp add: holds_image_def at_call_def time_time_def tracemalloc_start_def)

lemma objs_at_call: "objs (at_call s) = objs s"
  by (simp add: at_call_def time_time_def tracemalloc_start_def)

lemma timed_convert_numpy:
  assumes "holds_image s a img" "channels img = 3"
  shows "fst (timed l convert_numpy a s) = Inr (Suc (length (objs s)))"
    and "objs (snd (timed l convert_numpy a s))
           = objs s @ [Plane (weighted_plane img), Gray (grayscale img)]"
  using timed_returns [of convert_numpy a s _ _ l]
    convert_numpy_result [OF holds_image_at_call [OF assms(1)] assms(2)]
  by (simp_all add: objs_at_call)

lemma timed_convert_numba:
  assumes "holds_image s a img" "channels img = 3"
  shows "fst (timed l convert_numba a s) = Inr (Suc (length (objs s)))"
    and "objs (snd (timed l convert_numba a s))
           = objs s @ [Plane (weighted_plane img), Gray (grayscale img)]"
  using timed_returns [of convert_numba a s _ _ l]
    convert_numba_result [OF holds_image_at_call [OF assms(1)] assms(2)]
  by (simp_all add: objs_at_call)

lemma timed_convert_numba_loop:
  assumes "holds_image s a img" "channels img = 3"
  shows "fst (timed l convert_numba_loop a s) = Inr (Suc (length (objs s)))"
    and "objs (snd (timed l convert_numba_loop a s))
           = objs s @ [Gray (grayscale img), Gray (grayscale img)]"
  using timed_returns [of convert_numba_loop a s _ _ l]
    convert_numba_loop_result [OF holds_image_at_call [OF assms(1)] assms(2)]
  by (simp_all add: objs_at_call)

lemma for_each_stops:
  "body e s = (Inl err, s') \<Longrightarrow> for_each (e # rest) body s = (Inl err, s')"
  by simp

lemma pair_fst_snd: "fst p = x \<Longrightarrow> p = (x, snd p)"
  by (cases p) simp

lemma blank_leaves_files: "leaves_files blank_converter"
  by (simp add: leaves_files_def blank_converter_def alloc_def)

lemma imread_photo:
  "imread decode_two_pixels [''input'', ''a.JPG''] photo_machine
     = (Inr 0, photo_machine\<lparr>objs := [Image two_pixels]\<rparr>)"
  by (simp add: imread_def decode_two_pixels_def alloc_def photo_machine_def)

text \<open>
  Claim C6.  In the loop body of the driver, once the image is read and the first two
  converters have returned: if the grid of the second converter differs from the grid of
  the first, the body ends with AssertionError at the first \<^verbatim>\<open>assert\<close>; if they agree
  and the third converter returns a grid that differs from the first, it ends with
  AssertionError at the second.  Either way the loop over the input files ends there
  with that error, and the file system and the record of saved files are as they were
  before this image: nothing was written for it.  This holds for any three converters
  that do not write files themselves, as the three of the source do not.
\<close>

theorem mismatch_halts_before_saving:
  fixes s :: "'z machine_scheme"
  assumes "leaves_files conv_a" and "leaves_files conv_b" and "leaves_files conv_c"
    and rd: "imread dec e s = (Inr img, s1)"
    and ra: "timed ''numpy'' conv_a img (snd (print_line Separator s1)) = (Inr a, s2)"
    and rb: "timed ''numba'' conv_b img s2 = (Inr b, s3)"
    and ga: "fst (load_gray a s3) = Inr x" and gb: "fst (load_gray b s3) = Inr y"
  shows "(x \<noteq> y \<longrightarrow>
            process_file conv_a conv_b conv_c dec enc e s = (Inl AssertionError, s3)
          \<and> for_each (e # rest) (process_file conv_a conv_b conv_c dec enc) s
              = (Inl AssertionError, s3)
          \<and> files s3 = files s \<and> saved s3 = saved s)
       \<and> (x = y \<longrightarrow>
            (\<forall>c s4 x4 z.
               timed ''numba_loop'' conv_c img s3 = (Inr c, s4)
               \<and> fst (load_gray a s4) = Inr x4 \<and> fst (load_gray c s4) = Inr z \<and> x4 \<noteq> z \<longrightarrow>
                 process_file conv_a conv_b conv_c dec enc e s = (Inl AssertionError, s4)
               \<and> for_each (e # rest) (process_file conv_a conv_b conv_c dec enc) s
                   = (Inl AssertionError, s4)
               \<and> files s4 = files s \<and> saved s4 = saved s))"
proof -
  let ?p = "s1\<lparr>stdout := stdout s1 @ [Separator]\<rparr>"
  have pr: "print_line Separator s1 = (Inr (), ?p)" by (simp add: print_line_def)
  have ra: "timed ''numpy'' conv_a img ?p = (Inr a, s2)"
    using ra by (simp add: print_line_def)
  have f1: "same_files s s1" using imread_same_files [of s dec e] rd by simp
  have fp: "same_files s1 ?p" by (simp add: same_files_def)
  have f2: "same_files ?p s2" using timed_same_files [OF assms(1), of ?p "''numpy''" img] ra by simp
  have f3: "same_files s2 s3" using timed_same_files [OF assms(2), of s2 "''numba''" img] rb by simp
  have s3: "same_files s s3" using f1 fp f2 f3 by (simp add: same_files_def)
  have first: "process_file conv_a conv_b conv_c dec enc e s = (Inl AssertionError, s3)"
    if "x \<noteq> y"
    using rd pr ra rb assert_array_equal_differ [OF ga gb that]
    by (simp add: process_file_def andthen_def)
  have second: "process_file conv_a conv_b conv_c dec enc e s = (Inl AssertionError, s4)
                \<and> files s4 = files s \<and> saved s4 = saved s"
    if "x = y" and rc: "timed ''numba_loop'' conv_c img s3 = (Inr c, s4)"
      and g4: "fst (load_gray a s4) = Inr x4" "fst (load_gray c s4) = Inr z" "x4 \<noteq> z"
    for c s4 x4 z
  proof -
    have eq: "assert_array_equal a b s3 = (Inr (), s3)"
      using assert_array_equal_same [of a s3 x b] ga gb that(1) by simp
    have f4: "same_files s3 s4"
      using timed_same_files [OF assms(3), of s3 "''numba_loop''" img] rc by simp
    have "process_file conv_a conv_b conv_c dec enc e s = (Inl AssertionError, s4)"
      using rd pr ra rb eq rc assert_array_equal_differ [OF g4]
      by (simp add: process_file_def andthen_def)
    then show ?thesis using s3 f4 by (simp add: same_files_def)
  qed
  show ?thesis
    using first second s3 by (auto simp: same_files_def)
qed

theorem mismatch_halts_before_saving_witness:
  "fst (process_file convert_numpy blank_converter convert_numba_loop decode_two_pixels
          encode_raw [''input'', ''a.JPG''] photo_machine) = Inl AssertionError
   \<and> files (snd (process_file convert_numpy blank_converter convert_numba_loop
          decode_two_pixels encode_raw [''input'', ''a.JPG''] photo_machine))
       = files photo_machine
   \<and> saved (snd (process_file convert_numpy blank_converter convert_numba_loop
          decode_two_pixels encode_raw [''input'', ''a.JPG''] photo_machine))
       = saved photo_machine"
proof -
  let ?s1 = "photo_machine\<lparr>objs := [Image two_pixels]\<rparr>"
  let ?p = "snd (print_line Separator ?s1)"
  let ?s2 = "snd (timed ''numpy'' convert_numpy 0 ?p)"
  let ?s3 = "snd (timed ''numba'' blank_converter 0 ?s2)"
  have h: "holds_image ?p 0 two_pixels"
    by (simp add: holds_image_def print_line_def)
  have ch: "channels two_pixels = 3" by (simp add: two_pixels_def)
  have o1: "objs ?p = [Image two_pixels]" by (simp add: print_line_def)
  have a: "timed ''numpy'' convert_numpy 0 ?p = (Inr 2, ?s2)"
    using timed_convert_numpy(1) [OF h ch, of "''numpy''"] o1
    by (intro pair_fst_snd) simp
  have o2: "objs ?s2 = [Image two_pixels, Plane (weighted_plane two_pixels),
                        Gray (grayscale two_pixels)]"
    using timed_convert_numpy(2) [OF h ch, of "''numpy''"] o1 by simp
  have bl: "blank_converter 0 (at_call ?s2)
            = (Inr 3, (at_call ?s2)\<lparr>objs := objs ?s2 @ [Gray \<lparr>rows = 0, cols = 0, elems = []\<rparr>]\<rparr>)"
    by (simp add: blank_converter_def alloc_def objs_at_call o2)
  have b: "timed ''numba'' blank_converter 0 ?s2 = (Inr 3, ?s3)"
    using timed_returns(1) [of blank_converter 0 ?s2 3 _ "''numba''"] bl
    by (intro pair_fst_snd) simp
  have o3: "objs ?s3 = objs ?s2 @ [Gray \<lparr>rows = 0, cols = 0, elems = []\<rparr>]"
    using timed_returns(2) [of blank_converter 0 ?s2 3 _ "''numba''"] bl by simp
  have ga: "fst (load_gray 2 ?s3) = Inr (grayscale two_pixels)"
    by (simp add: load_gray_def o3 o2)
  have gb: "fst (load_gray 3 ?s3) = Inr \<lparr>rows = 0, cols = 0, elems = []\<rparr>"
    by (simp add: load_gray_def o3 o2)
  have ne: "grayscale two_pixels \<noteq> \<lparr>rows = 0, cols = 0, elems = []\<rparr>"
    by (simp add: grayscale_def two_pixels_def)
  show ?thesis
    using mismatch_halts_before_saving [OF converters_leave_files(1) blank_leaves_files
        converters_leave_files(3) imread_photo a b ga gb, of encode_raw "[]"] ne
    by simp
qed

lemma stem_JPG: "st \<noteq> [] \<Longrightarrow> stem (st @ ''.JPG'') = st"
  by (simp add: stem_def Let_def)

lemma matches_JPG_name: "matches_JPG [''input'', st @ ''.JPG'']"
  by (simp add: matches_JPG_def ends_with_def)

lemma target_JPG: "st \<noteq> [] \<Longrightarrow> target [d, st @ ''.JPG''] = [''output'', st @ ''_bw.jpg'']"
  using stem_JPG [of st] by (simp add: target_def)

lemma mkdir_absent:
  "map_of (files s) p = None \<Longrightarrow>
   mkdir_exist_ok p s = (Inr (), s\<lparr>files := files s @ [(p, Dir)]\<rparr>)"
  by (simp add: mkdir_exist_ok_def)

lemma mkdir_present:
  "map_of (files s) p = Some Dir \<Longrightarrow> mkdir_exist_ok p s = (Inr (), s)"
  by (simp add: mkdir_exist_ok_def)

lemma mkdir_ok:
  assumes "mkdir_exist_ok p s = (Inr (), s')"
  shows "map_of (files s') p = Some Dir" and "saved s' = saved s"
  using assms
  by (auto simp: mkdir_exist_ok_def map_of_append map_add_def split: option.splits node.splits)

lemma write_file_ok:
  assumes "write_file p bs s = (Inr (), s')"
  shows "saved s' = saved s @ [p]"
    and "files s' = AList.update p (File bs) (files s)"
  using assms
  by (auto simp: write_file_def split: option.splits node.splits)

lemma imsave_ok:
  assumes "imsave enc p a s = (Inr (), s')"
  shows "\<exists>bs. saved s' = saved s @ [p] \<and> files s' = AList.update p (File bs) (files s)"
proof -
  from assms obtain g s1 where l: "load_gray a s = (Inr g, s1)"
    and r1: "andthen (lift (enc g)) (write_file p) s1 = (Inr (), s')"
    unfolding imsave_def by (rule andthen_InrE)
  have s1: "s1 = s" using load_gray_state [of a s] l by simp
  from r1 obtain bs s2 where e: "lift (enc g) s1 = (Inr bs, s2)"
    and w: "write_file p bs s2 = (Inr (), s')"
    by (rule andthen_InrE)
  have s2: "s2 = s" using e s1 by (simp add: lift_def)
  show ?thesis using write_file_ok [OF w] s2 by blast
qed

lemma process_file_ok_saved:
  fixes s :: "'z machine_scheme"
  assumes lf: "leaves_files conv_a" "leaves_files conv_b" "leaves_files conv_c"
    and ok: "process_file conv_a conv_b conv_c dec enc e s = (Inr (), s')"
  shows "\<exists>bs. saved s' = saved s @ [target e]
            \<and> files s' = AList.update (target e) (File bs) (files s)"
proof -
  from ok obtain img s1 where rd: "imread dec e s = (Inr img, s1)" and
    k1: "andthen (print_line Separator) (\<lambda>u.
     andthen (timed ''numpy'' conv_a img) (\<lambda>bw_image_a.
     andthen (timed ''numba'' conv_b img) (\<lambda>bw_image_b.
     andthen (assert_array_equal bw_image_a bw_image_b) (\<lambda>u.
     andthen (timed ''numba_loop'' conv_c img) (\<lambda>bw_image_c.
     andthen (assert_array_equal bw_image_a bw_image_c) (\<lambda>u.
     imsave enc [''output'', stem (last e) @ ''_bw.jpg''] bw_image_a)))))) s1 = (Inr (), s')"
    unfolding process_file_def by (rule andthen_InrE)
  from k1 obtain u1 s2 where pr: "print_line Separator s1 = (Inr u1, s2)" and
    k2: "andthen (timed ''numpy'' conv_a img) (\<lambda>bw_image_a.
     andthen (timed ''numba'' conv_b img) (\<lambda>bw_image_b.
     andthen (assert_array_equal bw_image_a bw_image_b) (\<lambda>u.
     andthen (timed ''numba_loop'' conv_c img) (\<lambda>bw_image_c.
     andthen (assert_array_equal bw_image_a bw_image_c) (\<lambda>u.
     imsave enc [''output'', stem (last e) @ ''_bw.jpg''] bw_image_a))))) s2 = (Inr (), s')"
    by (rule andthen_InrE)
  from k2 obtain a s3 where ta: "timed ''numpy'' conv_a img s2 = (Inr a, s3)" and
    k3: "andthen (timed ''numba'' conv_b img) (\<lambda>bw_image_b.
     andthen (assert_array_equal a bw_image_b) (\<lambda>u.
     andthen (timed ''numba_loop'' conv_c img) (\<lambda>bw_image_c.
     andthen (assert_array_equal a bw_image_c) (\<lambda>u.
     imsave enc [''output'', stem (last e) @ ''_bw.jpg''] a)))) s3 = (Inr (), s')"
    by (rule andthen_InrE)
  from k3 obtain b s4 where tb: "timed ''numba'' conv_b img s3 = (Inr b, s4)" and
    k4: "andthen (assert_array_equal a b) (\<lambda>u.
     andthen (timed ''numba_loop'' conv_c img) (\<lambda>bw_image_c.
     andthen (assert_array_equal a bw_image_c) (\<lambda>u.
     imsave enc [''output'', stem (last e) @ ''_bw.jpg''] a))) s4 = (Inr (), s')"
    by (rule andthen_InrE)
  from k4 obtain u2 s5 where e1: "assert_array_equal a b s4 = (Inr u2, s5)" and
    k5: "andthen (timed ''numba_loop'' conv_c img) (\<lambda>bw_image_c.
     andthen (assert_array_equal a bw_image_c) (\<lambda>u.
     imsave enc [''output'', stem (last e) @ ''_bw.jpg''] a)) s5 = (Inr (), s')"
    by (rule andthen_InrE)
  from k5 obtain c s6 where tc: "timed ''numba_loop'' conv_c img s5 = (Inr c, s6)" and
    k6: "andthen (assert_array_equal a c) (\<lambda>u.
     imsave enc [''output'', stem (last e) @ ''_bw.jpg''] a) s6 = (Inr (), s')"
    by (rule andthen_InrE)
  from k6 obtain u3 s7 where e2: "assert_array_equal a c s6 = (Inr u3, s7)" and
    sv: "imsave enc [''output'', stem (last e) @ ''_bw.jpg''] a s7 = (Inr (), s')"
    by (rule andthen_InrE)
  have "same_files s s1" using imread_same_files [of s dec e] rd by simp
  moreover have "same_files s1 s2" using print_line_same_files [of s1 Separator] pr by simp
  moreover have "same_files s2 s3" using timed_same_files [OF lf(1), of s2 "''numpy''" img] ta by simp
  moreover have "same_files s3 s4" using timed_same_files [OF lf(2), of s3 "''numba''" img] tb by simp
  moreover have "s5 = s4" using assert_array_equal_state [of a b s4] e1 by simp
  moreover have "same_files s5 s6"
    using timed_same_files [OF lf(3), of s5 "''numba_loop''" img] tc by simp
  moreover have "s7 = s6" using assert_array_equal_state [of a c s6] e2 by simp
  ultimately have "files s7 = files s" "saved s7 = saved s"
    by (simp_all add: same_files_def)
  then show ?thesis using imsave_ok [OF sv] by (simp add: target_def)
qed

lemma written_update:
  assumes "files s' = AList.update p (File bs) (files s)"
  shows "written s' p" and "written s q \<Longrightarrow> written s' q"
    and "length p \<noteq> 1 \<Longrightarrow> map_of (files s') [''output''] = map_of (files s) [''output'']"
  using assms by (auto simp: written_def update_conv')

lemma length_target: "length (target e) = 2"
  by (simp add: target_def)

lemma for_each_saved:
  fixes s :: "'z machine_scheme"
  assumes lf: "leaves_files conv_a" "leaves_files conv_b" "leaves_files conv_c"
  shows "for_each es (process_file conv_a conv_b conv_c dec enc) s = (Inr (), s') \<Longrightarrow>
         map_of (files s) [''output''] = Some Dir \<Longrightarrow>
           saved s' = saved s @ map target es
         \<and> map_of (files s') [''output''] = Some Dir
         \<and> (\<forall>q. written s q \<longrightarrow> written s' q)
         \<and> (\<forall>e\<in>set es. written s' (target e))"
proof (induction es arbitrary: s)
  case Nil
  then show ?case by simp
next
  case (Cons e es)
  let ?body = "process_file conv_a conv_b conv_c dec enc"
  obtain r s1 where b: "?body e s = (r, s1)" by (cases "?body e s")
  from Cons.prems(1) b have r: "r = Inr ()" and rest: "for_each es ?body s1 = (Inr (), s')"
    by (cases r; simp)+
  from process_file_ok_saved [OF lf b [unfolded r]] obtain bs where
    sv: "saved s1 = saved s @ [target e]"
    and fs: "files s1 = AList.update (target e) (File bs) (files s)"
    by blast
  have dir1: "map_of (files s1) [''output''] = Some Dir"
    using written_update(3) [OF fs] Cons.prems(2) by (simp add: length_target)
  from Cons.IH [OF rest dir1] have
    ih: "saved s' = saved s1 @ map target es" "map_of (files s') [''output''] = Some Dir"
      "\<forall>q. written s1 q \<longrightarrow> written s' q" "\<forall>e\<in>set es. written s' (target e)"
    by simp_all
  have "written s' (target e)" using ih(3) written_update(1) [OF fs] by blast
  moreover have "\<forall>q. written s q \<longrightarrow> written s' q"
    using ih(3) written_update(2) [OF fs] by blast
  ultimately show ?case using ih sv by simp
qed

lemma main_with_saved:
  fixes s :: "'z machine_scheme"
  assumes lf: "leaves_files conv_a" "leaves_files conv_b" "leaves_files conv_c"
    and ok: "main_with conv_a conv_b conv_c dec enc s = (Inr (), s')"
  shows "saved s' = saved s @ map target (filter matches_JPG (map fst (files s)))"
    and "map_of (files s') [''output''] = Some Dir"
    and "\<forall>e\<in>set (filter matches_JPG (map fst (files s))). written s' (target e)"
proof -
  let ?es = "filter matches_JPG (map fst (files s))"
  from ok obtain es s0 where g: "glob_JPG s = (Inr es, s0)" and
    k1: "andthen (mkdir_exist_ok [''output'']) (\<lambda>u.
           for_each es (process_file conv_a conv_b conv_c dec enc)) s0 = (Inr (), s')"
    unfolding main_with_def by (rule andthen_InrE)
  have es: "es = ?es" and s0: "s0 = s" using g by (auto simp: glob_JPG_def)
  from k1 obtain u s1 where m: "mkdir_exist_ok [''output''] s0 = (Inr u, s1)" and
    l: "for_each es (process_file conv_a conv_b conv_c dec enc) s1 = (Inr (), s')"
    by (rule andthen_InrE)
  have m': "mkdir_exist_ok [''output''] s = (Inr (), s1)" using m s0 by simp
  note mk = mkdir_ok [OF m']
  from for_each_saved [OF lf l mk(1)] mk(2) es
  show "saved s' = saved s @ map target ?es"
    and "map_of (files s') [''output''] = Some Dir"
    and "\<forall>e\<in>set ?es. written s' (target e)"
    by simp_all
qed

lemma write_file_succeeds:
  assumes "map_of (files s) (butlast p) = Some Dir" "map_of (files s) p \<noteq> Some Dir"
  shows "fst (write_file p bs s) = Inr ()"
  using assms by (auto simp: write_file_def split: option.splits node.splits)

lemma process_file_succeeds:
  fixes s :: "'z machine_scheme"
  assumes f: "map_of (files s) e = Some (File bs)" and d: "dec bs = Inr img"
    and v: "channels img = 3" and en: "enc (grayscale img) = Inr out"
    and dir: "map_of (files s) [''output''] = Some Dir"
    and nd: "map_of (files s) (target e) \<noteq> Some Dir"
  shows "fst (process_file convert_numpy convert_numba convert_numba_loop dec enc e s) = Inr ()"
proof -
  let ?n = "length (objs s)"
  let ?g = "grayscale img"
  define na where "na = ?n + 2"
  define nb where "nb = ?n + 4"
  define nc where "nc = ?n + 6"
  define s1 where "s1 = s\<lparr>objs := objs s @ [Image img]\<rparr>"
  define p where "p = s1\<lparr>stdout := stdout s1 @ [Separator]\<rparr>"
  define s2 where "s2 = snd (timed ''numpy'' convert_numpy ?n p)"
  define s3 where "s3 = snd (timed ''numba'' convert_numba ?n s2)"
  define s4 where "s4 = snd (timed ''numba_loop'' convert_numba_loop ?n s3)"
  have rd: "imread dec e s = (Inr ?n, s1)"
    using f d by (simp add: imread_def alloc_def s1_def)
  have pr: "print_line Separator s1 = (Inr (), p)" by (simp add: print_line_def p_def)
  have op: "objs p = objs s @ [Image img]" by (simp add: p_def s1_def)
  have hp: "holds_image p ?n img" by (simp add: holds_image_def op)
  have a: "timed ''numpy'' convert_numpy ?n p = (Inr na, s2)"
    unfolding s2_def
    using timed_convert_numpy(1) [OF hp v, of "''numpy''"] op by (intro pair_fst_snd) (simp add: na_def)
  have o2: "objs s2 = objs s @ [Image img, Plane (weighted_plane img), Gray ?g]"
    unfolding s2_def using timed_convert_numpy(2) [OF hp v, of "''numpy''"] op by simp
  have h2: "holds_image s2 ?n img" by (simp add: holds_image_def o2 nth_append)
  have b: "timed ''numba'' convert_numba ?n s2 = (Inr nb, s3)"
    unfolding s3_def
    using timed_convert_numba(1) [OF h2 v, of "''numba''"] o2
    by (intro pair_fst_snd) (simp add: nb_def)
  have o3: "objs s3 = objs s @ [Image img, Plane (weighted_plane img), Gray ?g,
                                 Plane (weighted_plane img), Gray ?g]"
    unfolding s3_def using timed_convert_numba(2) [OF h2 v, of "''numba''"] o2 by simp
  have h3: "holds_image s3 ?n img" by (simp add: holds_image_def o3 nth_append)
  have e1: "assert_array_equal na nb s3 = (Inr (), s3)"
    by (rule assert_array_equal_same [where x = ?g]) (simp_all add: load_gray_def o3 nth_append na_def nb_def)
  have c: "timed ''numba_loop'' convert_numba_loop ?n s3 = (Inr nc, s4)"
    unfolding s4_def
    using timed_convert_numba_loop(1) [OF h3 v, of "''numba_loop''"] o3
    by (intro pair_fst_snd) (simp add: nc_def)
  have o4: "objs s4 = objs s @ [Image img, Plane (weighted_plane img), Gray ?g,
                                 Plane (weighted_plane img), Gray ?g, Gray ?g, Gray ?g]"
    unfolding s4_def using timed_convert_numba_loop(2) [OF h3 v, of "''numba_loop''"] o3 by simp
  have e2: "assert_array_equal na nc s4 = (Inr (), s4)"
    by (rule assert_array_equal_same [where x = ?g]) (simp_all add: load_gray_def o4 nth_append na_def nc_def)
  have lg: "load_gray na s4 = (Inr ?g, s4)"
    by (simp add: load_gray_def o4 nth_append na_def)
  have "same_files s s1" by (simp add: same_files_def s1_def)
  moreover have "same_files s1 p" by (simp add: same_files_def p_def)
  moreover have "same_files p s2"
    unfolding s2_def by (rule timed_same_files [OF converters_leave_files(1)])
  moreover have "same_files s2 s3"
    unfolding s3_def by (rule timed_same_files [OF converters_leave_files(2)])
  moreover have "same_files s3 s4"
    unfolding s4_def by (rule timed_same_files [OF converters_leave_files(3)])
  ultimately have fs: "files s4 = files s" by (simp add: same_files_def)
  have w: "fst (write_file (target e) out s4) = Inr ()"
    using dir nd by (intro write_file_succeeds) (simp_all add: fs target_def)
  have sv: "fst (imsave enc (target e) na s4) = Inr ()"
    using w by (simp add: imsave_def andthen_def lg lift_def en)
  show ?thesis
    using sv by (simp add: process_file_def andthen_def rd pr a b e1 c e2 target_def)
qed

lemma glob_photo: "filter matches_JPG (map fst (files photo_machine)) = [[''input'', ''a.JPG'']]"
  by (simp add: photo_machine_def matches_JPG_def ends_with_def)

lemma target_photo: "target [''input'', ''a.JPG''] = [''output'', ''a_bw.jpg'']"
  using target_JPG [of "''a''" "''input''"] by simp

lemma main_photo_succeeds: "fst (main decode_two_pixels encode_raw photo_machine) = Inr ()"
proof -
  let ?e = "[''input'', ''a.JPG'']"
  define s1 where "s1 = photo_machine\<lparr>files := files photo_machine @ [([''output''], Dir)]\<rparr>"
  have g: "glob_JPG photo_machine = (Inr [?e], photo_machine)"
    by (simp add: glob_JPG_def glob_photo)
  have m: "mkdir_exist_ok [''output''] photo_machine = (Inr (), s1)"
    unfolding s1_def by (rule mkdir_absent) (simp add: photo_machine_def)
  have fs1: "files s1 = [([''input''], Dir), ([''input'', ''a.JPG''], File [1, 2, 3]),
                         ([''output''], Dir)]"
    by (simp add: s1_def photo_machine_def)
  have "fst (process_file convert_numpy convert_numba convert_numba_loop decode_two_pixels
               encode_raw ?e s1) = Inr ()"
  proof (rule process_file_succeeds)
    show "map_of (files s1) ?e = Some (File [1, 2, 3])" by (simp add: fs1)
    show "decode_two_pixels [1, 2, 3] = Inr two_pixels" by (simp add: decode_two_pixels_def)
    show "channels two_pixels = 3" by (simp add: two_pixels_def)
    show "encode_raw (grayscale two_pixels) = Inr (elems (grayscale two_pixels))"
      by (simp add: encode_raw_def)
    show "map_of (files s1) [''output''] = Some Dir" by (simp add: fs1)
    show "map_of (files s1) (target ?e) \<noteq> Some Dir" by (simp add: fs1 target_photo)
  qed
  then have "fst (for_each [?e] (process_file convert_numpy convert_numba convert_numba_loop
               decode_two_pixels encode_raw) s1) = Inr ()"
    by (cases "process_file convert_numpy convert_numba convert_numba_loop decode_two_pixels
               encode_raw ?e s1") (auto split: sum.splits)
  then show ?thesis
    by (simp add: main_def main_with_def andthen_def g m)
qed

text \<open>
  Claim C9.  Whenever the driver runs to its end, it has called \<^verbatim>\<open>io.imsave\<close> exactly
  once for each input path the glob found, in order, each time with the path
  \<^verbatim>\<open>output/<stem>_bw.jpg\<close> for that input's stem; afterwards \<^verbatim>\<open>output\<close> is a
  directory and each of these paths holds a regular file.  For an input named
  \<^verbatim>\<open><st>.JPG\<close> with \<open>st\<close> not empty, the glob matches it and its output path is
  \<^verbatim>\<open>output/<st>_bw.jpg\<close>.  The \<^verbatim>\<open>mkdir\<close> creates \<^verbatim>\<open>output\<close> when there is no such entry,
  and returns without error and without any change when it is already a directory.
\<close>

theorem main_saves_one_output_per_input:
  fixes s :: "'z machine_scheme"
  shows "(\<forall>s'. main dec enc s = (Inr (), s') \<longrightarrow>
            saved s' = saved s @ map target (filter matches_JPG (map fst (files s)))
          \<and> map_of (files s') [''output''] = Some Dir
          \<and> (\<forall>e\<in>set (filter matches_JPG (map fst (files s))). written s' (target e)))
       \<and> (\<forall>st. st \<noteq> [] \<longrightarrow>
            matches_JPG [''input'', st @ ''.JPG'']
          \<and> target [''input'', st @ ''.JPG''] = [''output'', st @ ''_bw.jpg''])
       \<and> (map_of (files s) [''output''] = None \<longrightarrow>
            mkdir_exist_ok [''output''] s
              = (Inr (), s\<lparr>files := files s @ [([''output''], Dir)]\<rparr>))
       \<and> (map_of (files s) [''output''] = Some Dir \<longrightarrow>
            mkdir_exist_ok [''output''] s = (Inr (), s))"
  using main_with_saved [OF converters_leave_files, of dec enc s]
    matches_JPG_name target_JPG mkdir_absent [of s "[''output'']"]
    mkdir_present [of s "[''output'']"]
  unfolding main_def by blast

theorem main_saves_one_output_per_input_witness:
  "fst (main decode_two_pixels encode_raw photo_machine) = Inr ()
   \<and> saved (snd (main decode_two_pixels encode_raw photo_machine)) = [[''output'', ''a_bw.jpg'']]
   \<and> map_of (files (snd (main decode_two_pixels encode_raw photo_machine))) [''output'']
       = Some Dir
   \<and> written (snd (main decode_two_pixels encode_raw photo_machine)) [''output'', ''a_bw.jpg'']
   \<and> map_of (files photo_machine) [''output''] = None"
proof -
  let ?s' = "snd (main decode_two_pixels encode_raw photo_machine)"
  have m: "main decode_two_pixels encode_raw photo_machine = (Inr (), ?s')"
    using main_photo_succeeds by (rule pair_fst_snd)
  have sv: "saved photo_machine = []" and no: "map_of (files photo_machine) [''output''] = None"
    by (simp_all add: photo_machine_def)
  show ?thesis
    using main_saves_one_output_per_input [of decode_two_pixels encode_raw photo_machine] m
      main_photo_succeeds no
    by (simp add: glob_photo target_photo sv)
qed

end
